theory Spec2Isabelle
  imports Main "HOL-Library.Word"
begin

section \<open>Python values used by the two scripts\<close>

text \<open>
  The repository holds two scripts: \<^verbatim>\<open>asn_block.py\<close> (firewalld, ufw and iptables) and
  \<^verbatim>\<open>iptables_asn_block.py\<close> (iptables only). Functions of the second script that differ
  from the first carry the prefix \<open>ipt_\<close>; \<open>validate_asn\<close> and \<open>iprange_to_cidr\<close> are
  the same text in both files and are modelled once.
\<close>

datatype error = IndexError | ValueError | TypeError | FileNotFoundError | RequestException

subsection \<open>Strings\<close>

text \<open>
  Characters are code points below 256. \<open>isspace\<close> lists the code points that
  \<^verbatim>\<open>str.strip()\<close> removes in that range.
\<close>

definition TAB :: char where
  "TAB = CHR 0x09"

definition isspace :: "char \<Rightarrow> bool" where
  "isspace c = (of_char c \<in> {9, 10, 11, 12, 13, 28, 29, 30, 31, 32, 133, 160 :: nat})"

definition strip :: "string \<Rightarrow> string" where
  "strip s = rev (dropWhile isspace (rev (dropWhile isspace s)))"

fun split :: "string \<Rightarrow> char \<Rightarrow> string list" where
  "split [] sep = [[]]"
| "split (c # cs) sep =
     (if c = sep then [] # split cs sep
      else (case split cs sep of [] \<Rightarrow> [[c]] | p # ps \<Rightarrow> (c # p) # ps))"

definition startswith :: "string \<Rightarrow> string \<Rightarrow> bool" where
  "startswith s prefix = (take (length prefix) s = prefix)"

fun join :: "string \<Rightarrow> string list \<Rightarrow> string" where
  "join sep [] = []"
| "join sep [x] = x"
| "join sep (x # y # ys) = x @ sep @ join sep (y # ys)"

definition digit_char :: "nat \<Rightarrow> char" where
  "digit_char d = ''0123456789'' ! d"

fun str_nat :: "nat \<Rightarrow> string" where
  "str_nat n = (if n < 10 then [digit_char n] else str_nat (n div 10) @ [digit_char (n mod 10)])"

definition str_int :: "int \<Rightarrow> string" where
  "str_int i = (if i < 0 then ''-'' @ str_nat (nat (- i)) else str_nat (nat i))"

subsection \<open>Addresses and networks of the ipaddress module\<close>

datatype ip_address = IPv4Address "32 word" | IPv6Address "128 word"

fun ip_version :: "ip_address \<Rightarrow> nat" where
  "ip_version (IPv4Address w) = 4"
| "ip_version (IPv6Address w) = 6"

fun max_prefixlen :: "ip_address \<Rightarrow> nat" where
  "max_prefixlen (IPv4Address w) = 32"
| "max_prefixlen (IPv6Address w) = 128"

fun ip_int :: "ip_address \<Rightarrow> nat" where
  "ip_int (IPv4Address w) = unat w"
| "ip_int (IPv6Address w) = unat w"

datatype ip_network = IPNetwork (net_version: nat) (network_int: nat) (prefixlen: nat)

definition net_bits :: "ip_network \<Rightarrow> nat" where
  "net_bits n = (if net_version n = 4 then 32 else 128)"

text \<open>The addresses of a network: \<open>2 ^ (max_prefixlen - prefixlen)\<close> of them from the network address.\<close>

definition addresses :: "ip_network \<Rightarrow> nat set" where
  "addresses n = {network_int n ..< network_int n + 2 ^ (net_bits n - prefixlen n)}"

text \<open>
  Two networks are the two halves of a common parent: same version and prefix length
  \<open>p > 0\<close>, different network addresses, and the same enclosing block of prefix length
  \<open>p - 1\<close>.
\<close>

definition halves_of_common_parent :: "ip_network \<Rightarrow> ip_network \<Rightarrow> bool" where
  "halves_of_common_parent x y =
     (net_version x = net_version y \<and> prefixlen x = prefixlen y \<and> 0 < prefixlen x \<and>
      network_int x \<noteq> network_int y \<and>
      network_int x div 2 ^ Suc (net_bits x - prefixlen x) =
      network_int y div 2 ^ Suc (net_bits x - prefixlen x))"

text \<open>
  The library functions the scripts call and that are not part of the repository:
  \<^verbatim>\<open>ipaddress.ip_address\<close> (text to address, \<^verbatim>\<open>ValueError\<close> on other text),
  \<^verbatim>\<open>str\<close> of a network and \<^verbatim>\<open>re.match\<close> (pattern, then text). The scripts are
  modelled for every such library.
\<close>

record pylib =
  ip_address :: "string \<Rightarrow> error + ip_address"
  net_str :: "ip_network \<Rightarrow> string"
  re_match :: "string \<Rightarrow> string \<Rightarrow> bool"

section \<open>CIDR summarizer\<close>

text \<open>
  Modelled from the spec: the integer helpers of the summarizer, which are
  standard-library code outside the repository: the bit length of an integer and the
  number of trailing zero bits of an address, capped at the address width (the width
  itself for address 0).
\<close>

fun bit_length :: "nat \<Rightarrow> nat" where
  "bit_length n = (if n = 0 then 0 else Suc (bit_length (n div 2)))"

fun trailing_zeros :: "nat \<Rightarrow> nat" where
  "trailing_zeros n = (if n = 0 \<or> odd n then 0 else Suc (trailing_zeros (n div 2)))"

definition count_righthand_zero_bits :: "nat \<Rightarrow> nat \<Rightarrow> nat" where
  "count_righthand_zero_bits number bits =
     (if number = 0 then bits else min bits (trailing_zeros number))"

text \<open>
  Modelled from the spec: \<^verbatim>\<open>ipaddress.summarize_address_range\<close>, which
  \<open>iprange_to_cidr\<close> returns, is standard-library code outside the repository. The loop is
  the reduction of section 4.2 of the specification: at the current address take the
  largest aligned power-of-two block that does not pass the end, emit it, advance past
  it, until the current address is beyond the end; the block has
  \<open>min (trailing zero bits of the address) (bit_length (remaining span) - 1)\<close> host bits, as
  the library computes it, and the loop stops after a block that ends at the all-ones
  address. Lemmas \<open>block_bits_aligned\<close>, \<open>block_bits_fits\<close> and \<open>block_bits_largest\<close>
  show that this is the largest aligned block that fits.
\<close>

function summarize_loop :: "nat \<Rightarrow> nat \<Rightarrow> nat \<Rightarrow> (nat \<times> nat) list" where
  "summarize_loop ip_bits first_int last_int =
     (if first_int \<le> last_int then
        (let nbits = min (count_righthand_zero_bits first_int ip_bits)
                         (bit_length (last_int - first_int + 1) - 1);
             net = (first_int, ip_bits - nbits);
             first_int' = first_int + 2 ^ nbits
         in net # (if first_int' - 1 = 2 ^ ip_bits - 1 then []
                   else summarize_loop ip_bits first_int' last_int))
      else [])"
  by pat_completeness auto
termination
proof (relation "measure (\<lambda>(ip_bits, first_int, last_int). Suc last_int - first_int)", goal_cases)
  case 1
  show ?case by simp
next
  case (2 ip_bits first_int last_int nbits net first_int')
  have "0 < (2::nat) ^ nbits" by simp
  then have "first_int < first_int + 2 ^ nbits" by linarith
  with 2(1) have "Suc last_int - (first_int + 2 ^ nbits) < Suc last_int - first_int" by linarith
  then show ?case unfolding 2(4) by simp
qed

text \<open>The number of host bits of the block that the loop emits at \<open>first_int\<close>.\<close>

definition block_bits :: "nat \<Rightarrow> nat \<Rightarrow> nat \<Rightarrow> nat" where
  "block_bits ip_bits first_int last_int =
     min (count_righthand_zero_bits first_int ip_bits)
         (bit_length (last_int - first_int + 1) - 1)"

text \<open>
  \<open>tiles b lo ns hi\<close>: the blocks \<open>ns\<close> (network address and prefix length, of width \<open>b\<close>)
  lie end to end from \<open>lo\<close> up to, not including, \<open>hi\<close>.
\<close>

fun tiles :: "nat \<Rightarrow> nat \<Rightarrow> (nat \<times> nat) list \<Rightarrow> nat \<Rightarrow> bool" where
  "tiles b lo [] hi = (lo = hi)"
| "tiles b lo ((n, p) # ns) hi = (n = lo \<and> p \<le> b \<and> tiles b (lo + 2 ^ (b - p)) ns hi)"

definition blk_set :: "nat \<Rightarrow> nat \<times> nat \<Rightarrow> nat set" where
  "blk_set b x = {fst x ..< fst x + 2 ^ (b - snd x)}"

text \<open>
  Modelled from the spec: the entry of \<^verbatim>\<open>ipaddress.summarize_address_range\<close>. A range
  has both ends of one version and \<open>start \<le> end\<close> (section 3); the library raises
  \<^verbatim>\<open>TypeError\<close> for ends of different versions and \<^verbatim>\<open>ValueError\<close> when the first
  address is greater than the last, and otherwise yields the networks of the loop.
\<close>

definition summarize_address_range :: "ip_address \<Rightarrow> ip_address \<Rightarrow> error + ip_network list" where
  "summarize_address_range first_addr last_addr =
     (if ip_version first_addr \<noteq> ip_version last_addr then Inl TypeError
      else if ip_int first_addr > ip_int last_addr then Inl ValueError
      else Inr (map (\<lambda>(n, p). IPNetwork (ip_version first_addr) n p)
                    (summarize_loop (max_prefixlen first_addr) (ip_int first_addr) (ip_int last_addr))))"

definition iprange_to_cidr :: "pylib \<Rightarrow> string \<Rightarrow> string \<Rightarrow> error + ip_network list" where
  "iprange_to_cidr lib start_ip end_ip =
     (case ip_address lib start_ip of
        Inl e \<Rightarrow> Inl e
      | Inr start \<Rightarrow>
          (case ip_address lib end_ip of
             Inl e \<Rightarrow> Inl e
           | Inr end \<Rightarrow> summarize_address_range start end))"

section \<open>Range parser\<close>

text \<open>
  \<open>parse_dataset\<close> is a generator without effects of its own after the file is open: it
  is modelled by the pairs it yields, in order, and the exception that ends it early, if
  any. A file is the list of its lines.
\<close>

type_synonym 'a generated = "'a list \<times> error option"

fun parse_lines :: "string list \<Rightarrow> int \<Rightarrow> (string \<times> string) generated" where
  "parse_lines [] asn = ([], None)"
| "parse_lines (line # rest) asn =
     (if startswith line ''#'' \<or> strip line = [] then parse_lines rest asn
      else (let parts = split (strip line) TAB in
            if length parts < 3 then ([], Some IndexError)
            else (let start = parts ! 0; end = parts ! 1; record_asn = parts ! 2 in
                  if record_asn = str_int asn
                  then (case parse_lines rest asn of (ys, e) \<Rightarrow> ((start, end) # ys, e))
                  else parse_lines rest asn)))"

text \<open>\<^verbatim>\<open>iptables_asn_block.py\<close> unpacks the fields into exactly three names.\<close>

fun ipt_parse_lines :: "string list \<Rightarrow> int \<Rightarrow> (string \<times> string) generated" where
  "ipt_parse_lines [] asn = ([], None)"
| "ipt_parse_lines (line # rest) asn =
     (if startswith line ''#'' \<or> strip line = [] then ipt_parse_lines rest asn
      else (let parts = split (strip line) TAB in
            if length parts \<noteq> 3 then ([], Some ValueError)
            else (let start = parts ! 0; end = parts ! 1; record_asn = parts ! 2 in
                  if record_asn = str_int asn
                  then (case ipt_parse_lines rest asn of (ys, e) \<Rightarrow> ((start, end) # ys, e))
                  else ipt_parse_lines rest asn)))"

text \<open>
  The lines both parsers skip, and the fields of a line, for the statements about the
  parsers.
\<close>

definition skipped :: "string \<Rightarrow> bool" where
  "skipped line = (startswith line ''#'' \<or> strip line = [])"

definition line_fields :: "string \<Rightarrow> string list" where
  "line_fields line = split (strip line) TAB"

text \<open>A line that \<open>parse_dataset\<close> of \<^verbatim>\<open>asn_block.py\<close> reads without an exception.\<close>

definition well_shaped :: "string \<Rightarrow> bool" where
  "well_shaped line = (skipped line \<or> 3 \<le> length (line_fields line))"

definition validate_asn :: "int \<Rightarrow> bool" where
  "validate_asn asn = (0 < asn \<and> asn < 4294967295)"


section \<open>The system the scripts act on\<close>

definition BIN_SYSTEMCTL :: string where "BIN_SYSTEMCTL = ''/bin/systemctl''"
definition BIN_FIREWALL_CMD :: string where "BIN_FIREWALL_CMD = ''/usr/bin/firewall-cmd''"
definition BIN_UFW :: string where "BIN_UFW = ''/usr/sbin/ufw''"
definition BIN_IPSET :: string where "BIN_IPSET = ''/sbin/ipset''"
definition BIN_IPTABLES :: string where "BIN_IPTABLES = ''/sbin/iptables''"
definition BIN_IP6TABLES :: string where "BIN_IP6TABLES = ''/sbin/ip6tables''"

definition IPTOASN_V4_URL :: string where
  "IPTOASN_V4_URL = ''https://iptoasn.com/data/ip2asn-v4.tsv.gz''"
definition IPTOASN_V6_URL :: string where
  "IPTOASN_V6_URL = ''https://iptoasn.com/data/ip2asn-v6.tsv.gz''"
definition DATA_DIR :: string where
  "DATA_DIR = ''/var/tmp/iptoasn_cache''"

text \<open>The dictionary \<open>FILES\<close>; the scripts look up the keys \<open>v4\<close> and \<open>v6\<close> only.\<close>

definition FILES :: "string \<Rightarrow> string" where
  "FILES version =
     (if version = ''v4'' then DATA_DIR @ ''/ip2asn-v4.tsv'' else DATA_DIR @ ''/ip2asn-v6.tsv'')"

text \<open>
  The state outside the scripts: the active systemd units, the named ipsets with their
  members, the set-matching DROP rules of the INPUT chains (binary and set name, newest
  first), the files as lists of lines, and what the dataset URLs serve (the lines of the
  decompressed body; no entry when the request fails).
\<close>

record system =
  services :: "string list"
  ipsets :: "(string \<times> string list) list"
  rules :: "(string \<times> string) list"
  files :: "(string \<times> string list) list"
  remote :: "(string \<times> string list) list"

definition ipset_exists :: "system \<Rightarrow> string \<Rightarrow> bool" where
  "ipset_exists s name = (map_of (ipsets s) name \<noteq> None)"

definition match_set_rule :: "string \<Rightarrow> string \<Rightarrow> string \<Rightarrow> string list" where
  "match_set_rule cmd_path op ipset_name =
     [cmd_path, op, ''INPUT'', ''-m'', ''set'', ''--match-set'', ipset_name, ''src'', ''-j'', ''DROP'']"

text \<open>
  Modelled from the spec: the external tools are black-box effects with a return code
  (section 6). \<open>exec\<close> gives the return code and the next state of the commands whose
  result the scripts read or whose effect a claim is about: \<^verbatim>\<open>systemctl is-active\<close>,
  the \<^verbatim>\<open>ipset\<close> subcommands (a set referenced by a rule cannot be destroyed, an existing
  set cannot be created again) and the insertion, check and deletion of a set-matching
  rule. The state of firewalld and ufw is not represented: their commands return 0.
\<close>

definition exec :: "string list \<Rightarrow> system \<Rightarrow> int \<times> system" where
  "exec cmd s =
     (if length cmd = 4 \<and> take 3 cmd = [BIN_SYSTEMCTL, ''is-active'', ''--quiet''] then
        (if cmd ! 3 \<in> set (services s) then 0 else 3, s)
      else if length cmd = 3 \<and> take 2 cmd = [BIN_IPSET, ''list''] then
        (if ipset_exists s (cmd ! 2) then 0 else 1, s)
      else if length cmd = 3 \<and> take 2 cmd = [BIN_IPSET, ''destroy''] then
        (if ipset_exists s (cmd ! 2) \<and> cmd ! 2 \<notin> snd ` set (rules s)
         then (0, s\<lparr>ipsets := filter (\<lambda>p. fst p \<noteq> cmd ! 2) (ipsets s)\<rparr>)
         else (1, s))
      else if length cmd = 6 \<and> take 2 cmd = [BIN_IPSET, ''create''] then
        (if ipset_exists s (cmd ! 2) then (1, s)
         else (0, s\<lparr>ipsets := ipsets s @ [(cmd ! 2, [])]\<rparr>))
      else if length cmd = 3 \<and> take 2 cmd = [BIN_IPSET, ''flush''] then
        (if ipset_exists s (cmd ! 2)
         then (0, s\<lparr>ipsets := map (\<lambda>p. if fst p = cmd ! 2 then (fst p, []) else p) (ipsets s)\<rparr>)
         else (1, s))
      else if length cmd = 4 \<and> take 2 cmd = [BIN_IPSET, ''add''] then
        (case map_of (ipsets s) (cmd ! 2) of
           None \<Rightarrow> (1, s)
         | Some members \<Rightarrow>
             if cmd ! 3 \<in> set members then (1, s)
             else (0, s\<lparr>ipsets := map (\<lambda>p. if fst p = cmd ! 2 then (fst p, snd p @ [cmd ! 3]) else p)
                                       (ipsets s)\<rparr>))
      else if length cmd = 10 \<and> cmd = match_set_rule (cmd ! 0) (cmd ! 1) (cmd ! 6) \<and>
              (cmd ! 0 = BIN_IPTABLES \<or> cmd ! 0 = BIN_IP6TABLES) then
        (if cmd ! 1 = ''-I'' then
           (if ipset_exists s (cmd ! 6) then (0, s\<lparr>rules := (cmd ! 0, cmd ! 6) # rules s\<rparr>)
            else (2, s))
         else if cmd ! 1 = ''-C'' then
           (if (cmd ! 0, cmd ! 6) \<in> set (rules s) then 0 else 1, s)
         else if cmd ! 1 = ''-D'' then
           (if (cmd ! 0, cmd ! 6) \<in> set (rules s)
            then (0, s\<lparr>rules := remove1 (cmd ! 0, cmd ! 6) (rules s)\<rparr>)
            else (1, s))
         else (2, s))
      else (0, s))"

text \<open>
  The commands of a live run that resets, creates and fills one set: the existence
  query, the destroy command when the set exists, the create command and one add
  command for each CIDR string.
\<close>

definition ipset_commands :: "system \<Rightarrow> string \<Rightarrow> string \<Rightarrow> string list \<Rightarrow> string list list" where
  "ipset_commands s ipset_name family cidrs =
     [BIN_IPSET, ''list'', ipset_name] #
     (if ipset_exists s ipset_name then [[BIN_IPSET, ''destroy'', ipset_name]] else []) @
     [[BIN_IPSET, ''create'', ipset_name, ''hash:net'', ''family'', family]] @
     map (\<lambda>cidr. [BIN_IPSET, ''add'', ipset_name, cidr]) cidrs"

text \<open>Two systems that differ at most in the set of the given name.\<close>

definition only_ipset_changed :: "string \<Rightarrow> system \<Rightarrow> system \<Rightarrow> bool" where
  "only_ipset_changed name s s' =
     (services s' = services s \<and> rules s' = rules s \<and> files s' = files s \<and> remote s' = remote s \<and>
      (\<forall>other. other \<noteq> name \<longrightarrow> map_of (ipsets s') other = map_of (ipsets s) other))"

text \<open>
  The members of a set after \<^verbatim>\<open>ipset add\<close> has been run for each of the given strings in
  order: an entry that is already a member is refused and leaves the set as it is.
\<close>

definition add_members :: "string list \<Rightarrow> string list \<Rightarrow> string list" where
  "add_members members cidrs = foldl (\<lambda>m c. if c \<in> set m then m else m @ [c]) members cidrs"

text \<open>Two systems that differ at most in the named set, which has received the given strings.\<close>

definition filled :: "string \<Rightarrow> string list \<Rightarrow> system \<Rightarrow> system \<Rightarrow> bool" where
  "filled name cidrs s s' =
     (only_ipset_changed name s s' \<and>
      map_of (ipsets s') name = map_option (\<lambda>m. add_members m cidrs) (map_of (ipsets s) name))"

text \<open>
  The members the named set has after \<^verbatim>\<open>ipset destroy\<close> (when it exists) and
  \<^verbatim>\<open>ipset create\<close>: none, unless a rule references the set, which is then not destroyed.
\<close>

definition kept_members :: "system \<Rightarrow> string \<Rightarrow> string list" where
  "kept_members s name =
     (if name \<in> snd ` set (rules s)
      then (case map_of (ipsets s) name of None \<Rightarrow> [] | Some members \<Rightarrow> members)
      else [])"

section \<open>Effects\<close>

text \<open>
  What a run does, in order: external commands (\<^verbatim>\<open>subprocess.run\<close> and
  \<^verbatim>\<open>subprocess.call\<close>), printed lines, log records (level and message), directory
  creation, HTTP requests, files written and files opened for reading.
\<close>

datatype event =
    Run "string list"
  | Print string
  | Log string string
  | Mkdir string
  | Get string
  | Write string
  | Open string

text \<open>
  A statement of the scripts maps the system to the events it causes, the next system
  and its value, or the exception that ends it.
\<close>

type_synonym 'a prog = "system \<Rightarrow> event list \<times> system \<times> (error + 'a)"

definition ret :: "'a \<Rightarrow> 'a prog" where
  "ret x = (\<lambda>s. ([], s, Inr x))"

definition raise :: "error \<Rightarrow> 'a prog" where
  "raise e = (\<lambda>s. ([], s, Inl e))"

definition bindp :: "'a prog \<Rightarrow> ('a \<Rightarrow> 'b prog) \<Rightarrow> 'b prog" where
  "bindp m f =
     (\<lambda>s. case m s of
        (t, s', Inl e) \<Rightarrow> (t, s', Inl e)
      | (t, s', Inr x) \<Rightarrow> (case f x s' of (t', s'', r) \<Rightarrow> (t @ t', s'', r)))"

definition thenp :: "'a prog \<Rightarrow> 'b prog \<Rightarrow> 'b prog" where
  "thenp m n = bindp m (\<lambda>_. n)"

definition emit :: "event \<Rightarrow> unit prog" where
  "emit e = (\<lambda>s. ([e], s, Inr ()))"

definition events_of :: "event list \<times> system \<times> (error + 'a) \<Rightarrow> event list" where
  "events_of r = fst r"

definition system_of :: "event list \<times> system \<times> (error + 'a) \<Rightarrow> system" where
  "system_of r = fst (snd r)"

definition result_of :: "event list \<times> system \<times> (error + 'a) \<Rightarrow> error + 'a" where
  "result_of r = snd (snd r)"

definition commands :: "event list \<Rightarrow> string list list" where
  "commands t = concat (map (\<lambda>e. case e of Run cmd \<Rightarrow> [cmd] | _ \<Rightarrow> []) t)"

definition printed :: "event list \<Rightarrow> string list" where
  "printed t = concat (map (\<lambda>e. case e of Print line \<Rightarrow> [line] | _ \<Rightarrow> []) t)"

text \<open>A \<^verbatim>\<open>for\<close> loop over a list, with the variables the body updates as accumulator.\<close>

fun for_loop :: "'a list \<Rightarrow> 'b \<Rightarrow> ('a \<Rightarrow> 'b \<Rightarrow> 'b prog) \<Rightarrow> 'b prog" where
  "for_loop [] acc body = ret acc"
| "for_loop (x # xs) acc body = bindp (body x acc) (\<lambda>acc'. for_loop xs acc' body)"

text \<open>A \<^verbatim>\<open>for\<close> loop over a generator: the exception of the generator ends the loop.\<close>

definition for_generated :: "'a generated \<Rightarrow> 'b \<Rightarrow> ('a \<Rightarrow> 'b \<Rightarrow> 'b prog) \<Rightarrow> 'b prog" where
  "for_generated g acc body =
     bindp (for_loop (fst g) acc body)
       (\<lambda>acc'. case snd g of None \<Rightarrow> ret acc' | Some e \<Rightarrow> raise e)"

definition subprocess_run :: "string list \<Rightarrow> int prog" where
  "subprocess_run cmd = (\<lambda>s. case exec cmd s of (returncode, s') \<Rightarrow> ([Run cmd], s', Inr returncode))"

definition py_print :: "string \<Rightarrow> unit prog" where
  "py_print line = emit (Print line)"

definition logger_info :: "string \<Rightarrow> unit prog" where
  "logger_info msg = emit (Log ''INFO'' msg)"

definition logger_warning :: "string \<Rightarrow> unit prog" where
  "logger_warning msg = emit (Log ''WARNING'' msg)"

definition logger_error :: "string \<Rightarrow> unit prog" where
  "logger_error msg = emit (Log ''ERROR'' msg)"

definition path_exists :: "string \<Rightarrow> bool prog" where
  "path_exists path = (\<lambda>s. ([], s, Inr (map_of (files s) path \<noteq> None)))"


section \<open>The script \<^verbatim>\<open>asn_block.py\<close>\<close>

definition is_service_active :: "string \<Rightarrow> bool prog" where
  "is_service_active service =
     bindp (subprocess_run [BIN_SYSTEMCTL, ''is-active'', ''--quiet'', service])
       (\<lambda>returncode. ret (returncode = 0))"

definition ensure_data_dir :: "unit prog" where
  "ensure_data_dir = emit (Mkdir DATA_DIR)"

definition BACKSLASH :: char where
  "BACKSLASH = CHR 0x5C"

definition LINE_PATTERN :: string where
  "LINE_PATTERN = ''^'' @ [BACKSLASH] @ ''S+'' @ [BACKSLASH] @ ''t'' @ [BACKSLASH] @ ''S+'' @
     [BACKSLASH] @ ''t'' @ [BACKSLASH] @ ''d+(?:'' @ [BACKSLASH] @ ''t.+)?$''"

text \<open>
  \<open>download_file\<close>: the request, decompression and the filtered copy are one step here;
  the compressed temporary file, written and removed inside the call, is left out.
\<close>

definition download_file :: "pylib \<Rightarrow> string \<Rightarrow> string \<Rightarrow> unit prog" where
  "download_file lib url out_path =
     (\<lambda>s. case map_of (remote s) url of
        None \<Rightarrow> ([Get url], s, Inl RequestException)
      | Some body \<Rightarrow>
          ([Get url, Write out_path],
           s\<lparr>files := (out_path, filter (\<lambda>line. re_match lib LINE_PATTERN (strip line)) body)
                         # filter (\<lambda>p. fst p \<noteq> out_path) (files s)\<rparr>,
           Inr ()))"

definition update_datasets :: "pylib \<Rightarrow> unit prog" where
  "update_datasets lib =
     thenp ensure_data_dir
    (thenp (logger_info ''Downloading IPv4 dataset...'')
    (thenp (download_file lib IPTOASN_V4_URL (FILES ''v4''))
    (thenp (logger_info ''Downloading IPv6 dataset...'')
    (thenp (download_file lib IPTOASN_V6_URL (FILES ''v6''))
           (logger_info ''Datasets updated.'')))))"

definition ensure_datasets :: "pylib \<Rightarrow> unit prog" where
  "ensure_datasets lib =
     bindp (path_exists (FILES ''v4'')) (\<lambda>v4_exists.
     bindp (if \<not> v4_exists then ret True
            else bindp (path_exists (FILES ''v6'')) (\<lambda>v6_exists. ret (\<not> v6_exists))) (\<lambda>missing.
       if missing then thenp (logger_warning ''Datasets missing, downloading now...'')
                             (update_datasets lib)
       else ret ()))"

definition parse_dataset :: "string \<Rightarrow> int \<Rightarrow> (string \<times> string) generated prog" where
  "parse_dataset file_path asn =
     (\<lambda>s. case map_of (files s) file_path of
        None \<Rightarrow> ([Open file_path], s, Inl FileNotFoundError)
      | Some lines \<Rightarrow> ([Open file_path], s, Inr (parse_lines lines asn)))"

definition detect_firewall_backend :: "string prog" where
  "detect_firewall_backend =
     bindp (is_service_active ''firewalld'') (\<lambda>firewalld.
     bindp (is_service_active ''ufw'') (\<lambda>ufw.
     bindp (bindp (is_service_active ''iptables'') (\<lambda>active.
              if active then ret True else is_service_active ''ip6tables'')) (\<lambda>ipt.
       if sum_list (map of_bool [firewalld, ufw, ipt]) > (1::nat) then
         thenp (logger_error
                  ''Multiple conflicting firewall systems detected. Please ensure only one is active.'')
               (ret ''conflict'')
       else if firewalld then ret ''firewalld''
       else if ufw then ret ''ufw''
       else if ipt then ret ''iptables''
       else ret ''unknown'')))"

text \<open>
  The three backends as \<open>detect_firewall_backend\<close> counts them: the iptables backend is
  active when the \<open>iptables\<close> unit or the \<open>ip6tables\<close> unit is.
\<close>

definition backend_active :: "system \<Rightarrow> string \<Rightarrow> bool" where
  "backend_active s backend =
     (if backend = ''iptables''
      then ''iptables'' \<in> set (services s) \<or> ''ip6tables'' \<in> set (services s)
      else backend \<in> set (services s))"

definition active_backends :: "system \<Rightarrow> string list" where
  "active_backends s = filter (backend_active s) [''firewalld'', ''ufw'', ''iptables'']"

definition is_active_query :: "string list \<Rightarrow> bool" where
  "is_active_query cmd = (length cmd = 4 \<and> take 3 cmd = [BIN_SYSTEMCTL, ''is-active'', ''--quiet''])"

text \<open>The activation queries of \<open>detect_firewall_backend\<close>, in order.\<close>

definition detect_queries :: "system \<Rightarrow> event list" where
  "detect_queries s =
     map (\<lambda>service. Run [BIN_SYSTEMCTL, ''is-active'', ''--quiet'', service])
       ([''firewalld'', ''ufw'', ''iptables''] @
        (if ''iptables'' \<in> set (services s) then [] else [''ip6tables'']))"

text \<open>The events that change nothing: activation queries, printed lines and log records.\<close>

fun query_or_message :: "event \<Rightarrow> bool" where
  "query_or_message (Run cmd) = is_active_query cmd"
| "query_or_message (Print line) = True"
| "query_or_message (Log level msg) = True"
| "query_or_message (Mkdir path) = False"
| "query_or_message (Get url) = False"
| "query_or_message (Write path) = False"
| "query_or_message (Open path) = False"

definition dry_run_line :: "string \<Rightarrow> string" where
  "dry_run_line description = ''[DRY-RUN] Would run: '' @ description"

definition create_or_reset_ipset :: "string \<Rightarrow> string \<Rightarrow> bool \<Rightarrow> unit prog" where
  "create_or_reset_ipset ipset_name version dry_run =
     bindp (subprocess_run [BIN_IPSET, ''list'', ipset_name]) (\<lambda>returncode.
     thenp (if returncode = 0 then
              (if dry_run then py_print (dry_run_line (BIN_IPSET @ '' destroy '' @ ipset_name))
               else thenp (subprocess_run [BIN_IPSET, ''destroy'', ipset_name]) (ret ()))
            else ret ())
           (let cmd = [BIN_IPSET, ''create'', ipset_name, ''hash:net'', ''family'',
                       if version = ''v6'' then ''inet6'' else ''inet''] in
            if dry_run then py_print (dry_run_line (join '' '' cmd))
            else thenp (subprocess_run cmd) (ret ())))"

definition add_ip_to_ipset :: "string \<Rightarrow> string \<Rightarrow> bool \<Rightarrow> unit prog" where
  "add_ip_to_ipset ipset_name cidr dry_run =
     (let cmd = [BIN_IPSET, ''add'', ipset_name, cidr] in
      if dry_run then py_print (dry_run_line (join '' '' cmd))
      else thenp (subprocess_run cmd) (ret ()))"

definition apply_firewalld_rule :: "string \<Rightarrow> bool \<Rightarrow> unit prog" where
  "apply_firewalld_rule ipset_name dry_run =
     (let zone = ''block'';
          cmd_add = [BIN_FIREWALL_CMD, ''--permanent'', ''--zone='' @ zone,
                     ''--add-source=ipset:'' @ ipset_name];
          cmd_reload = [BIN_FIREWALL_CMD, ''--reload''] in
      if dry_run then thenp (py_print (dry_run_line (join '' '' cmd_add)))
                            (py_print (dry_run_line (join '' '' cmd_reload)))
      else thenp (subprocess_run cmd_add) (thenp (subprocess_run cmd_reload) (ret ())))"

definition remove_firewalld_rule :: "string \<Rightarrow> bool \<Rightarrow> unit prog" where
  "remove_firewalld_rule ipset_name dry_run =
     (let zone = ''block'';
          cmd_del = [BIN_FIREWALL_CMD, ''--permanent'', ''--zone='' @ zone,
                     ''--remove-source=ipset:'' @ ipset_name];
          cmd_reload = [BIN_FIREWALL_CMD, ''--reload''] in
      if dry_run then thenp (py_print (dry_run_line (join '' '' cmd_del)))
                            (py_print (dry_run_line (join '' '' cmd_reload)))
      else thenp (subprocess_run cmd_del) (thenp (subprocess_run cmd_reload) (ret ())))"

definition apply_ufw_rule :: "string list \<Rightarrow> bool \<Rightarrow> unit prog" where
  "apply_ufw_rule cidr_list dry_run =
     for_loop cidr_list () (\<lambda>cidr _.
       (let rule = [BIN_UFW, ''deny'', ''from'', cidr] in
        if dry_run then py_print (dry_run_line (join '' '' rule))
        else thenp (subprocess_run rule) (ret ())))"

definition remove_ufw_rule :: "string list \<Rightarrow> bool \<Rightarrow> unit prog" where
  "remove_ufw_rule cidr_list dry_run =
     for_loop cidr_list () (\<lambda>cidr _.
       (let rule = [BIN_UFW, ''delete'', ''deny'', ''from'', cidr] in
        if dry_run then py_print (dry_run_line (join '' '' rule))
        else thenp (subprocess_run rule) (ret ())))"

definition apply_iptables_rule :: "string \<Rightarrow> string \<Rightarrow> bool \<Rightarrow> unit prog" where
  "apply_iptables_rule cmd_path ipset_name dry_run =
     (let rule = [cmd_path, ''-I'', ''INPUT'', ''-m'', ''set'', ''--match-set'', ipset_name,
                  ''src'', ''-j'', ''DROP''] in
      if dry_run then py_print (dry_run_line (join '' '' rule))
      else thenp (subprocess_run rule) (ret ()))"

definition remove_iptables_rule :: "string \<Rightarrow> string \<Rightarrow> bool \<Rightarrow> unit prog" where
  "remove_iptables_rule cmd_path ipset_name dry_run =
     (let rule = [cmd_path, ''-D'', ''INPUT'', ''-m'', ''set'', ''--match-set'', ipset_name,
                  ''src'', ''-j'', ''DROP''] in
      if dry_run then py_print (dry_run_line (join '' '' rule))
      else thenp (subprocess_run rule) (ret ()))"

text \<open>
  Lines 212 to 217 of \<open>create_ipset_and_rules\<close>: the nested loops that add every network
  of every range to the set and collect \<open>cidr_list\<close>. An exception of \<open>ip_address\<close> or of
  the summarizer for a range comes before any network of that range.
\<close>

definition block_cidr_list :: "pylib \<Rightarrow> int \<Rightarrow> string \<Rightarrow> string \<Rightarrow> bool \<Rightarrow> string list prog" where
  "block_cidr_list lib asn version ipset_name dry_run =
     bindp (parse_dataset (FILES version) asn) (\<lambda>ranges.
       for_generated ranges [] (\<lambda>(start, end) cidr_list.
         case iprange_to_cidr lib start end of
           Inl e \<Rightarrow> raise e
         | Inr nets \<Rightarrow>
             for_loop nets cidr_list (\<lambda>net cidr_list.
               (let cidr = net_str lib net in
                thenp (add_ip_to_ipset ipset_name cidr dry_run) (ret (cidr_list @ [cidr]))))))"

text \<open>The body of the loop over the versions in \<open>create_ipset_and_rules\<close> (lines 208 to 225).\<close>

definition create_ipset_and_rules_version ::
  "pylib \<Rightarrow> int \<Rightarrow> bool \<Rightarrow> string \<Rightarrow> string \<Rightarrow> unit prog" where
  "create_ipset_and_rules_version lib asn dry_run firewall version =
     (let ipset_name = (if version = ''v4'' then ''ASN'' @ str_int asn @ ''_v4''
                        else ''ASN'' @ str_int asn @ ''_v6'') in
      thenp (create_or_reset_ipset ipset_name version dry_run)
     (bindp (block_cidr_list lib asn version ipset_name dry_run) (\<lambda>cidr_list.
        if firewall = ''iptables'' then
          (let cmd = (if version = ''v4'' then BIN_IPTABLES else BIN_IP6TABLES) in
           apply_iptables_rule cmd ipset_name dry_run)
        else if firewall = ''firewalld'' then apply_firewalld_rule ipset_name dry_run
        else if firewall = ''ufw'' then apply_ufw_rule cidr_list dry_run
        else ret ())))"

definition create_ipset_and_rules :: "pylib \<Rightarrow> int \<Rightarrow> bool \<Rightarrow> unit prog" where
  "create_ipset_and_rules lib asn dry_run =
     thenp (py_print ''--- Creating block rules ---'')
       (if \<not> validate_asn asn then logger_error ''Invalid ASN.''
        else
          bindp detect_firewall_backend (\<lambda>firewall.
            if firewall = ''conflict'' then ret ()
            else
              thenp (py_print (''Firewall system detected: '' @ firewall))
             (thenp ensure_data_dir
             (thenp (ensure_datasets lib)
                    (for_loop [''v4'', ''v6''] ()
                       (\<lambda>version _. create_ipset_and_rules_version lib asn dry_run firewall version))))))"

text \<open>Lines 240 to 244 of \<open>cleanup_ipsets\<close>: the list is computed again from the dataset.\<close>

definition unblock_cidr_list :: "pylib \<Rightarrow> int \<Rightarrow> string \<Rightarrow> string list prog" where
  "unblock_cidr_list lib asn version =
     bindp (parse_dataset (FILES version) asn) (\<lambda>ranges.
       for_generated ranges [] (\<lambda>(start, end) cidr_list.
         case iprange_to_cidr lib start end of
           Inl e \<Rightarrow> raise e
         | Inr nets \<Rightarrow>
             for_loop nets cidr_list (\<lambda>net cidr_list. ret (cidr_list @ [net_str lib net]))))"

text \<open>
  The bodies of the loops over the ranges in \<open>unblock_cidr_list\<close> and
  \<open>block_cidr_list\<close>, named for the proofs about these loops.
\<close>

definition collect_range :: "pylib \<Rightarrow> string \<times> string \<Rightarrow> string list \<Rightarrow> string list prog" where
  "collect_range lib =
     (\<lambda>(start, end) cidr_list. case iprange_to_cidr lib start end of
        Inl e \<Rightarrow> raise e
      | Inr nets \<Rightarrow> for_loop nets cidr_list (\<lambda>net cidr_list. ret (cidr_list @ [net_str lib net])))"

definition add_range :: "pylib \<Rightarrow> string \<Rightarrow> bool \<Rightarrow> string \<times> string \<Rightarrow> string list \<Rightarrow> string list prog" where
  "add_range lib ipset_name dry_run =
     (\<lambda>(start, end) cidr_list. case iprange_to_cidr lib start end of
        Inl e \<Rightarrow> raise e
      | Inr nets \<Rightarrow> for_loop nets cidr_list
          (\<lambda>net cidr_list. let cidr = net_str lib net in
             thenp (add_ip_to_ipset ipset_name cidr dry_run) (ret (cidr_list @ [cidr]))))"

text \<open>The body of the loop over the versions in \<open>cleanup_ipsets\<close> (lines 239 to 258).\<close>

definition cleanup_ipsets_version :: "pylib \<Rightarrow> int \<Rightarrow> bool \<Rightarrow> string \<Rightarrow> string \<Rightarrow> unit prog" where
  "cleanup_ipsets_version lib asn dry_run firewall version =
     (let ipset_name = ''ASN'' @ str_int asn @ ''_'' @ version in
      bindp (unblock_cidr_list lib asn version) (\<lambda>cidr_list.
      thenp (if firewall = ''iptables'' then
               (let cmd = (if version = ''v4'' then BIN_IPTABLES else BIN_IP6TABLES) in
                remove_iptables_rule cmd ipset_name dry_run)
             else if firewall = ''firewalld'' then remove_firewalld_rule ipset_name dry_run
             else if firewall = ''ufw'' then remove_ufw_rule cidr_list dry_run
             else ret ())
            (if dry_run then py_print (dry_run_line (BIN_IPSET @ '' destroy '' @ ipset_name))
             else thenp (subprocess_run [BIN_IPSET, ''destroy'', ipset_name])
                        (logger_info (''Removed ipset and rules for '' @ ipset_name)))))"

definition cleanup_ipsets :: "pylib \<Rightarrow> int \<Rightarrow> bool \<Rightarrow> unit prog" where
  "cleanup_ipsets lib asn dry_run =
     thenp (py_print ''--- Cleaning up block rules ---'')
       (if \<not> validate_asn asn then logger_error ''Invalid ASN.''
        else
          bindp detect_firewall_backend (\<lambda>firewall.
            if firewall = ''conflict'' then ret ()
            else
              thenp (py_print (''Firewall system detected: '' @ firewall))
                    (for_loop [''v4'', ''v6''] ()
                       (\<lambda>version _. cleanup_ipsets_version lib asn dry_run firewall version))))"

text \<open>The parsed command line: \<open>asn\<close> is absent when the argument is not given.\<close>

record args =
  arg_action :: string
  arg_asn :: "int option"
  arg_dry_run :: bool

definition main :: "pylib \<Rightarrow> args \<Rightarrow> unit prog" where
  "main lib a =
     (if arg_action a = ''update'' then update_datasets lib
      else if arg_action a = ''block'' then
        (case arg_asn a of
           None \<Rightarrow> logger_error ''ASN argument required.''
         | Some asn \<Rightarrow>
             if asn = 0 then logger_error ''ASN argument required.''
             else create_ipset_and_rules lib asn (arg_dry_run a))
      else if arg_action a = ''unblock'' then
        (case arg_asn a of
           None \<Rightarrow> logger_error ''ASN argument required.''
         | Some asn \<Rightarrow>
             if asn = 0 then logger_error ''ASN argument required.''
             else cleanup_ipsets lib asn (arg_dry_run a))
      else ret ())"

subsection \<open>Dry runs and live runs\<close>

text \<open>
  The commands that only read the system: the activation queries and the existence query
  of a set. The scripts run them in dry-run mode too.
\<close>

definition is_query :: "string list \<Rightarrow> bool" where
  "is_query cmd = (is_active_query cmd \<or> (length cmd = 3 \<and> take 2 cmd = [BIN_IPSET, ''list'']))"

text \<open>A printed line that describes a command, by its prefix.\<close>

definition would_run_line :: "string \<Rightarrow> bool" where
  "would_run_line line = startswith line (dry_run_line [])"

text \<open>The lines a dry run prints in place of commands, in order.\<close>

definition would_run :: "event list \<Rightarrow> string list" where
  "would_run t = filter would_run_line (printed t)"

text \<open>
  What a dry run prints for the commands of a live run: for each command that is not a
  query, its words joined by blanks, after the dry-run prefix.
\<close>

definition described :: "string list list \<Rightarrow> string list" where
  "described cmds = map (\<lambda>cmd. dry_run_line (join '' '' cmd)) (filter (\<lambda>cmd. \<not> is_query cmd) cmds)"

text \<open>
  The events of a dry run mirror those of a live run: the dry run issues the queries of
  the live run and prints the description of each of its other commands.
\<close>

definition mirrors :: "event list \<Rightarrow> event list \<Rightarrow> bool" where
  "mirrors dry live =
     (commands dry = filter is_query (commands live) \<and> would_run dry = described (commands live))"





section \<open>The script \<^verbatim>\<open>iptables_asn_block.py\<close>\<close>

text \<open>
  The log messages of this script begin with a pictograph and blanks, which are left
  out of the messages below; the rest of each message is the text of the source.
\<close>

definition QUOTE :: char where
  "QUOTE = CHR 0x27"

definition IPT_LINE_PATTERN :: string where
  "IPT_LINE_PATTERN = ''^'' @ [BACKSLASH] @ ''d+'' @ [BACKSLASH] @ ''t'' @ [BACKSLASH] @ ''d+'' @
     [BACKSLASH] @ ''t'' @ [BACKSLASH] @ ''d+$''"

definition ipt_download_file :: "pylib \<Rightarrow> string \<Rightarrow> string \<Rightarrow> unit prog" where
  "ipt_download_file lib url out_path =
     (\<lambda>s. case map_of (remote s) url of
        None \<Rightarrow> ([Get url], s, Inl RequestException)
      | Some body \<Rightarrow>
          ([Get url, Write out_path],
           s\<lparr>files := (out_path, filter (\<lambda>line. re_match lib IPT_LINE_PATTERN (strip line)) body)
                         # filter (\<lambda>p. fst p \<noteq> out_path) (files s)\<rparr>,
           Inr ()))"

definition ipt_update_datasets :: "pylib \<Rightarrow> unit prog" where
  "ipt_update_datasets lib =
     thenp ensure_data_dir
    (thenp (logger_info ''Downloading IPv4 dataset...'')
    (thenp (ipt_download_file lib IPTOASN_V4_URL (FILES ''v4''))
    (thenp (logger_info ''Downloading IPv6 dataset...'')
    (thenp (ipt_download_file lib IPTOASN_V6_URL (FILES ''v6''))
           (logger_info ''Datasets updated!'')))))"

definition ipt_ensure_datasets :: "pylib \<Rightarrow> unit prog" where
  "ipt_ensure_datasets lib =
     bindp (path_exists (FILES ''v4'')) (\<lambda>v4_exists.
     bindp (if \<not> v4_exists then ret True
            else bindp (path_exists (FILES ''v6'')) (\<lambda>v6_exists. ret (\<not> v6_exists))) (\<lambda>missing.
       if missing then thenp (logger_warning ''Datasets missing, downloading now...'')
                             (ipt_update_datasets lib)
       else ret ()))"

definition ipt_parse_dataset :: "string \<Rightarrow> int \<Rightarrow> (string \<times> string) generated prog" where
  "ipt_parse_dataset file_path asn =
     (\<lambda>s. case map_of (files s) file_path of
        None \<Rightarrow> ([Open file_path], s, Inl FileNotFoundError)
      | Some lines \<Rightarrow> ([Open file_path], s, Inr (ipt_parse_lines lines asn)))"

text \<open>Lines 97 to 104: the nested loops, with \<open>count\<close> as the variable they update.\<close>

definition ipt_add_cidrs :: "pylib \<Rightarrow> int \<Rightarrow> string \<Rightarrow> string \<Rightarrow> bool \<Rightarrow> nat prog" where
  "ipt_add_cidrs lib asn version ipset_name dry_run =
     bindp (ipt_parse_dataset (FILES version) asn) (\<lambda>ranges.
       for_generated ranges 0 (\<lambda>(start, end) count.
         case iprange_to_cidr lib start end of
           Inl e \<Rightarrow> raise e
         | Inr nets \<Rightarrow>
             for_loop nets count (\<lambda>cidr count.
               thenp (if dry_run
                      then py_print (''[DRY-RUN] Would add '' @ net_str lib cidr @ '' to ipset '' @
                                     [QUOTE] @ ipset_name @ [QUOTE])
                      else thenp (subprocess_run [BIN_IPSET, ''add'', ipset_name, net_str lib cidr])
                                 (ret ()))
                     (ret (count + 1)))))"

text \<open>The body of the loop over the versions in \<open>create_ipset_and_rules\<close> (lines 90 to 118).\<close>

definition ipt_create_ipset_and_rules_version ::
  "pylib \<Rightarrow> int \<Rightarrow> bool \<Rightarrow> string \<Rightarrow> unit prog" where
  "ipt_create_ipset_and_rules_version lib asn dry_run version =
     (let ipset_name = (if version = ''v4'' then ''ASN'' @ str_int asn @ ''_v4''
                        else ''ASN'' @ str_int asn @ ''_v6'');
          ip_version = (if version = ''v4'' then ''inet'' else ''inet6'') in
      thenp (if \<not> dry_run then
               thenp (subprocess_run [BIN_IPSET, ''create'', ipset_name, ''hash:net'', ''family'',
                                      ip_version])
              (thenp (subprocess_run [BIN_IPSET, ''flush'', ipset_name]) (ret ()))
             else ret ())
     (bindp (ipt_add_cidrs lib asn version ipset_name dry_run) (\<lambda>count.
      thenp (logger_info (str_nat count @ '' CIDRs '' @
                          (if dry_run then ''would be'' else ''added to'') @ '' ipset '' @
                          [QUOTE] @ ipset_name @ [QUOTE]))
            (if \<not> dry_run then
               (let chain = ''INPUT'';
                    cmd = (if version = ''v4'' then BIN_IPTABLES else BIN_IP6TABLES) in
                bindp (subprocess_run [cmd, ''-C'', chain, ''-m'', ''set'', ''--match-set'',
                                       ipset_name, ''src'', ''-j'', ''DROP'']) (\<lambda>returncode.
                  (let rule_exists = (returncode = 0) in
                   if \<not> rule_exists then
                     thenp (subprocess_run [cmd, ''-I'', chain, ''-m'', ''set'', ''--match-set'',
                                            ipset_name, ''src'', ''-j'', ''DROP''])
                           (logger_info (''Rule added to '' @ chain @ '' chain for ipset '' @
                                         [QUOTE] @ ipset_name @ [QUOTE]))
                   else ret ())))
             else ret ()))))"

definition ipt_create_ipset_and_rules :: "pylib \<Rightarrow> int \<Rightarrow> bool \<Rightarrow> unit prog" where
  "ipt_create_ipset_and_rules lib asn dry_run =
     (if \<not> validate_asn asn then logger_error ''Invalid ASN.''
      else
        thenp ensure_data_dir
       (thenp (ipt_ensure_datasets lib)
              (for_loop [''v4'', ''v6''] ()
                 (\<lambda>version _. ipt_create_ipset_and_rules_version lib asn dry_run version))))"

definition ipt_cleanup_ipsets :: "int \<Rightarrow> unit prog" where
  "ipt_cleanup_ipsets asn =
     (if \<not> validate_asn asn then logger_error ''Invalid ASN.''
      else
        for_loop [''v4'', ''v6''] () (\<lambda>version _.
          (let ipset_name = ''ASN'' @ str_int asn @ ''_'' @ version;
               cmd = (if version = ''v4'' then BIN_IPTABLES else BIN_IP6TABLES) in
           thenp (subprocess_run [cmd, ''-D'', ''INPUT'', ''-m'', ''set'', ''--match-set'',
                                  ipset_name, ''src'', ''-j'', ''DROP''])
          (thenp (subprocess_run [BIN_IPSET, ''destroy'', ipset_name])
                 (logger_info (''Removed ipset and rules for '' @ ipset_name))))))"

definition ipt_main :: "pylib \<Rightarrow> args \<Rightarrow> unit prog" where
  "ipt_main lib a =
     (if arg_action a = ''update'' then ipt_update_datasets lib
      else if arg_action a \<in> set [''block'', ''unblock''] then
        (case arg_asn a of
           None \<Rightarrow> logger_error ''ASN argument required.''
         | Some asn \<Rightarrow>
             if asn = 0 then logger_error ''ASN argument required.''
             else if arg_action a = ''block''
               then ipt_create_ipset_and_rules lib asn (arg_dry_run a)
               else ipt_cleanup_ipsets asn)
      else ret ())"

section \<open>A library instance and systems for evaluation\<close>

text \<open>
  An instance of the library functions, used where a statement is evaluated on given
  data: dotted-quad IPv4 text (four decimal octets without leading zeros) is an address
  and any other text is rejected with \<^verbatim>\<open>ValueError\<close>, so the examples use IPv4 ranges
  only; a network prints as dotted quad, slash, prefix length; a line passes the
  pattern filter when its first three tab-separated fields are not empty and the third
  is decimal.
\<close>

definition is_digit :: "char \<Rightarrow> bool" where
  "is_digit c = (c \<in> set ''0123456789'')"

definition nat_of_digits :: "string \<Rightarrow> nat" where
  "nat_of_digits ds = foldl (\<lambda>n c. 10 * n + (of_char c - 48)) 0 ds"

definition parse_octet :: "string \<Rightarrow> nat option" where
  "parse_octet ds =
     (if ds \<noteq> [] \<and> length ds \<le> 3 \<and> list_all is_digit ds \<and>
         (length ds = 1 \<or> take 1 ds \<noteq> ''0'') \<and> nat_of_digits ds \<le> 255
      then Some (nat_of_digits ds) else None)"

definition ipv4_address :: "string \<Rightarrow> error + ip_address" where
  "ipv4_address text =
     (let octets = map parse_octet (split text (CHR ''.'')) in
      if length octets = 4 \<and> list_all (\<lambda>x. x \<noteq> None) octets
      then Inr (IPv4Address (of_nat (foldl (\<lambda>n x. 256 * n + the x) 0 octets)))
      else Inl ValueError)"

definition ipv4_net_str :: "ip_network \<Rightarrow> string" where
  "ipv4_net_str net =
     join ''.'' (map (\<lambda>k. str_nat (network_int net div 256 ^ k mod 256)) [3, 2, 1, 0]) @ ''/'' @
     str_nat (prefixlen net)"

definition three_fields :: "string \<Rightarrow> string \<Rightarrow> bool" where
  "three_fields pattern text =
     (let fields = split text TAB in
      3 \<le> length fields \<and> list_all (\<lambda>f. f \<noteq> []) (take 3 fields) \<and> list_all is_digit (fields ! 2))"

definition ipv4_lib :: pylib where
  "ipv4_lib = \<lparr>ip_address = ipv4_address, net_str = ipv4_net_str, re_match = three_fields\<rparr>"

definition dataset_line :: "string \<Rightarrow> string \<Rightarrow> string \<Rightarrow> string" where
  "dataset_line start_ip end_ip record_asn =
     start_ip @ [TAB] @ end_ip @ [TAB] @ record_asn @ [TAB] @ ''ZZ'' @ [TAB] @ ''EXAMPLE-NET'' @ [CHR 0x0A]"

text \<open>
  A system with both dataset files in place: the IPv4 file has a comment line, a blank
  line, one range of AS 64500 and one of AS 64501; the IPv6 file has no line.
\<close>

definition example_files :: "(string \<times> string list) list" where
  "example_files =
     [(FILES ''v4'', [''# ranges'' @ [CHR 0x0A], [CHR 0x0A],
                      dataset_line ''1.2.3.4'' ''1.2.3.9'' ''64500'',
                      dataset_line ''9.9.9.0'' ''9.9.9.255'' ''64501'']),
      (FILES ''v6'', [])]"

definition example_system :: "string list \<Rightarrow> system" where
  "example_system active =
     \<lparr>services = active, ipsets = [], rules = [], files = example_files, remote = []\<rparr>"

text \<open>Dataset lines of exactly three fields, after a comment line and a blank line.\<close>

definition three_field_lines :: "string list" where
  "three_field_lines =
     [''# ranges'' @ [CHR 0x0A], [CHR 0x0A],
      ''1.2.3.4'' @ [TAB] @ ''1.2.3.9'' @ [TAB] @ ''64500'' @ [CHR 0x0A],
      ''9.9.9.0'' @ [TAB] @ ''9.9.9.255'' @ [TAB] @ ''64501'' @ [CHR 0x0A]]"

text \<open>A system without the dataset files, where the dataset URLs serve the example lines.\<close>

definition system_without_datasets :: "string list \<Rightarrow> system" where
  "system_without_datasets active =
     \<lparr>services = active, ipsets = [], rules = [], files = [],
      remote = [(IPTOASN_V4_URL, [dataset_line ''1.2.3.4'' ''1.2.3.9'' ''64500'']),
                (IPTOASN_V6_URL, [])]\<rparr>"

text \<open>A system whose IPv4 dataset has lines of exactly three fields.\<close>

definition three_field_system :: "string list \<Rightarrow> system" where
  "three_field_system active =
     \<lparr>services = active, ipsets = [], rules = [],
      files = [(FILES ''v4'', three_field_lines), (FILES ''v6'', [])], remote = []\<rparr>"

text \<open>The system after AS 64500 has been blocked through iptables.\<close>

definition blocked_system :: system where
  "blocked_system =
     \<lparr>services = [''iptables''],
      ipsets = [(''ASN64500_v4'', [''1.2.3.4/30'', ''1.2.3.8/31'']), (''ASN64500_v6'', [])],
      rules = [(BIN_IP6TABLES, ''ASN64500_v6''), (BIN_IPTABLES, ''ASN64500_v4'')],
      files = example_files, remote = []\<rparr>"

text \<open>A system without a firewall service, where a rule references a set of the ASN.\<close>

definition referenced_system :: system where
  "referenced_system =
     \<lparr>services = [], ipsets = [(''ASN64500_v4'', [''9.9.9.9/32''])],
      rules = [(BIN_IPTABLES, ''ASN64500_v4'')], files = example_files, remote = []\<rparr>"

declare bit_length.simps [simp del] trailing_zeros.simps [simp del]
  summarize_loop.simps [simp del] str_nat.simps [simp del]

section \<open>The summarizer emits the largest aligned block that fits\<close>

lemma bit_length_bounds: "0 < n \<Longrightarrow> 2 ^ (bit_length n - 1) \<le> n \<and> n < 2 ^ bit_length n"
proof (induction n rule: bit_length.induct)
  case (1 n)
  show ?case
  proof (cases "n div 2 = 0")
    case True
    with 1 have "n = 1" by (auto simp: div_eq_0_iff)
    then show ?thesis by (simp add: bit_length.simps)
  next
    case False
    then have "0 < n div 2" by simp
    with 1 have IH: "2 ^ (bit_length (n div 2) - 1) \<le> n div 2" "n div 2 < 2 ^ bit_length (n div 2)"
      by auto
    have pos: "0 < bit_length (n div 2)" using False by (simp add: bit_length.simps[of "n div 2"])
    have bl: "bit_length n = Suc (bit_length (n div 2))" using 1 by (simp add: bit_length.simps[of n])
    have e1: "(2::nat) ^ (bit_length n - 1) = 2 * 2 ^ (bit_length (n div 2) - 1)"
      using pos bl by (cases "bit_length (n div 2)") auto
    have e2: "(2::nat) ^ bit_length n = 2 * 2 ^ bit_length (n div 2)"
      using bl by simp
    have d: "2 * (n div 2) \<le> n" "n < 2 * (n div 2) + 2" by presburger+
    from IH(1) d(1) have "2 * 2 ^ (bit_length (n div 2) - 1) \<le> n" by linarith
    moreover from IH(2) d(2) have "n < 2 * 2 ^ bit_length (n div 2)" by linarith
    ultimately show ?thesis unfolding e1 e2 by simp
  qed
qed

lemma trailing_zeros_dvd: "2 ^ trailing_zeros n dvd n"
proof (induction n rule: trailing_zeros.induct)
  case (1 n)
  show ?case
  proof (cases "n = 0 \<or> odd n")
    case True
    then show ?thesis by (simp add: trailing_zeros.simps[of n])
  next
    case False
    with 1 have "2 ^ trailing_zeros (n div 2) dvd n div 2" by simp
    then have "2 * 2 ^ trailing_zeros (n div 2) dvd 2 * (n div 2)" by (rule mult_dvd_mono[OF dvd_refl])
    with False show ?thesis by (simp add: trailing_zeros.simps[of n])
  qed
qed

lemma trailing_zeros_max: "0 < n \<Longrightarrow> 2 ^ k dvd n \<Longrightarrow> k \<le> trailing_zeros n"
proof (induction n arbitrary: k rule: trailing_zeros.induct)
  case (1 n)
  show ?case
  proof (cases k)
    case 0
    then show ?thesis by simp
  next
    case (Suc j)
    with 1(3) have ev: "even n" by (metis dvd_trans dvd_triv_left power_Suc)
    from 1(3) Suc have "2 * 2 ^ j dvd 2 * (n div 2)" using ev by simp
    then have "2 ^ j dvd n div 2" by simp
    moreover have "0 < n div 2" using ev 1(2) by (auto elim!: evenE)
    ultimately have "j \<le> trailing_zeros (n div 2)" using 1(1) 1(2) ev by simp
    then show ?thesis using Suc ev 1(2) by (simp add: trailing_zeros.simps[of n])
  qed
qed


lemma count_righthand_zero_bits_le: "count_righthand_zero_bits f b \<le> b"
  unfolding count_righthand_zero_bits_def by (cases "f = 0") simp_all

lemma block_bits_le: "block_bits b f l \<le> b"
  unfolding block_bits_def using count_righthand_zero_bits_le[of f b] by (rule min.coboundedI1)

lemma block_bits_aligned: "2 ^ block_bits b f l dvd f"
proof (cases "f = 0")
  case True
  then show ?thesis by simp
next
  case False
  have "block_bits b f l \<le> trailing_zeros f"
    using False by (simp add: block_bits_def count_righthand_zero_bits_def)
  then have "(2::nat) ^ block_bits b f l dvd 2 ^ trailing_zeros f"
    by (rule le_imp_power_dvd)
  then show ?thesis using trailing_zeros_dvd by (rule dvd_trans)
qed


lemma block_bits_le_span: "block_bits b f l \<le> bit_length (l - f + 1) - 1"
  unfolding block_bits_def by (rule min.cobounded2)

lemma block_bits_fits:
  assumes "f \<le> l"
  shows "f + 2 ^ block_bits b f l \<le> Suc l"
proof -
  define m where "m = l - f + 1"
  have mpos: "0 < m" unfolding m_def by simp
  have p1: "2 ^ (bit_length m - 1) \<le> m" using bit_length_bounds[OF mpos] by (rule conjunct1)
  have "block_bits b f l \<le> bit_length m - 1" unfolding m_def by (rule block_bits_le_span)
  then have p2: "(2::nat) ^ block_bits b f l \<le> 2 ^ (bit_length m - 1)"
    by (rule power_increasing) simp
  from p2 p1 have "2 ^ block_bits b f l \<le> m" by (rule order_trans)
  then have "f + 2 ^ block_bits b f l \<le> f + m" by (rule add_left_mono)
  also have "f + m = Suc l" unfolding m_def using assms by simp
  finally show ?thesis .
qed


lemma block_bits_largest:
  assumes "f \<le> l" and "k \<le> b" and "2 ^ k dvd f" and "f + 2 ^ k \<le> Suc l"
  shows "k \<le> block_bits b f l"
proof -
  define m where "m = l - f + 1"
  have k1: "k \<le> count_righthand_zero_bits f b"
  proof (cases "f = 0")
    case True
    with assms(2) show ?thesis unfolding count_righthand_zero_bits_def by simp
  next
    case False
    then have "0 < f" by simp
    then have "k \<le> trailing_zeros f" using assms(3) by (rule trailing_zeros_max)
    with assms(2) False show ?thesis unfolding count_righthand_zero_bits_def by simp
  qed
  have mpos: "0 < m" unfolding m_def by simp
  have fm: "f + m = Suc l" unfolding m_def using assms(1) by simp
  have m_lt: "m < 2 ^ bit_length m" using bit_length_bounds[OF mpos] by (rule conjunct2)
  have "f + 2 ^ k \<le> f + m" using assms(4) fm by simp
  then have "2 ^ k \<le> m" by (rule add_le_imp_le_left)
  then have "(2::nat) ^ k < 2 ^ bit_length m" using m_lt by (rule le_less_trans)
  then have "k < bit_length m" by (rule power_less_imp_less_exp[rotated]) simp
  then have "k \<le> bit_length m - 1" by simp
  then have "k \<le> bit_length (l - f + 1) - 1" unfolding m_def .
  with k1 show ?thesis unfolding block_bits_def by (rule min.boundedI)
qed

lemma summarize_loop_empty: "l < f \<Longrightarrow> summarize_loop b f l = []"
  by (subst summarize_loop.simps) simp

lemma summarize_loop_unfold:
  assumes "f \<le> l" and "l < 2 ^ b"
  shows "summarize_loop b f l =
           (f, b - block_bits b f l) # summarize_loop b (f + 2 ^ block_bits b f l) l"
proof -
  define f' where "f' = f + 2 ^ block_bits b f l"
  have fit: "f' \<le> Suc l" unfolding f'_def using assms(1) by (rule block_bits_fits)
  have "summarize_loop b f' l = []" if "f' - 1 = 2 ^ b - 1"
  proof -
    have "0 < f'" unfolding f'_def by simp
    moreover have "0 < (2::nat) ^ b" by simp
    ultimately have "f' = 2 ^ b" using that by linarith
    with assms(2) have "l < f'" by simp
    then show ?thesis by (rule summarize_loop_empty)
  qed
  then have rest: "(if f' - 1 = 2 ^ b - 1 then [] else summarize_loop b f' l) = summarize_loop b f' l"
    by (cases "f' - 1 = 2 ^ b - 1") simp_all
  have "summarize_loop b f l =
          (f, b - block_bits b f l) # (if f' - 1 = 2 ^ b - 1 then [] else summarize_loop b f' l)"
    unfolding f'_def
    by (subst summarize_loop.simps) (simp only: assms(1) if_True Let_def block_bits_def)
  then show ?thesis unfolding rest unfolding f'_def .
qed


lemma summarize_loop_tiles:
  "f \<le> Suc l \<Longrightarrow> l < 2 ^ b \<Longrightarrow> tiles b f (summarize_loop b f l) (Suc l)"
proof (induction "Suc l - f" arbitrary: f rule: less_induct)
  case less
  show ?case
  proof (cases "f \<le> l")
    case False
    with less.prems have "f = Suc l" by simp
    then show ?thesis by (simp add: summarize_loop_empty)
  next
    case True
    define k where "k = block_bits b f l"
    have kb: "k \<le> b" unfolding k_def by (rule block_bits_le)
    have fit: "f + 2 ^ k \<le> Suc l" unfolding k_def using True by (rule block_bits_fits)
    have "0 < (2::nat) ^ k" by simp
    then have "Suc l - (f + 2 ^ k) < Suc l - f" using True by linarith
    then have IH: "tiles b (f + 2 ^ k) (summarize_loop b (f + 2 ^ k) l) (Suc l)"
      using fit less.prems(2) by (rule less.hyps)
    have bk: "b - (b - k) = k" using kb by simp
    have "summarize_loop b f l = (f, b - k) # summarize_loop b (f + 2 ^ k) l"
      unfolding k_def using True less.prems(2) by (rule summarize_loop_unfold)
    then show ?thesis using IH by (simp add: bk)
  qed
qed

lemma tiles_le: "tiles b lo ns hi \<Longrightarrow> lo \<le> hi"
proof (induction ns arbitrary: lo)
  case Nil
  then show ?case by simp
next
  case (Cons x ns)
  obtain n p where x: "x = (n, p)" by (cases x)
  from Cons.prems x have "tiles b (lo + 2 ^ (b - p)) ns hi" by simp
  then have "lo + 2 ^ (b - p) \<le> hi" by (rule Cons.IH)
  then show ?case by simp
qed

lemma tiles_union: "tiles b lo ns hi \<Longrightarrow> (\<Union>x\<in>set ns. blk_set b x) = {lo..<hi}"
proof (induction ns arbitrary: lo)
  case Nil
  then show ?case by simp
next
  case (Cons x ns)
  obtain n p where x: "x = (n, p)" by (cases x)
  from Cons.prems x have n: "n = lo" and t: "tiles b (lo + 2 ^ (b - p)) ns hi" by simp_all
  from t have IH: "(\<Union>x\<in>set ns. blk_set b x) = {lo + 2 ^ (b - p)..<hi}" by (rule Cons.IH)
  from t have le: "lo + 2 ^ (b - p) \<le> hi" by (rule tiles_le)
  have "{lo..<lo + 2 ^ (b - p)} \<union> {lo + 2 ^ (b - p)..<hi} = {lo..<hi}"
    using le by (intro ivl_disj_un_two) simp_all
  then show ?case using IH by (simp add: x n blk_set_def)
qed

lemma tiles_disjoint:
  "tiles b lo ns hi \<Longrightarrow> i < j \<Longrightarrow> j < length ns \<Longrightarrow> blk_set b (ns ! i) \<inter> blk_set b (ns ! j) = {}"
proof (induction ns arbitrary: lo i j)
  case Nil
  then show ?case by simp
next
  case (Cons x ns)
  obtain n p where x: "x = (n, p)" by (cases x)
  from Cons.prems(1) x have n: "n = lo" and t: "tiles b (lo + 2 ^ (b - p)) ns hi" by simp_all
  obtain j' where j: "j = Suc j'" using Cons.prems(2) by (cases j) simp_all
  have j'len: "j' < length ns" using Cons.prems(3) j by simp
  show ?case
  proof (cases i)
    case 0
    have "ns ! j' \<in> set ns" using j'len by simp
    then have "blk_set b (ns ! j') \<subseteq> (\<Union>x\<in>set ns. blk_set b x)" by blast
    then have "blk_set b (ns ! j') \<subseteq> {lo + 2 ^ (b - p)..<hi}" using tiles_union[OF t] by simp
    moreover have "blk_set b x = {lo..<lo + 2 ^ (b - p)}" by (simp add: x n blk_set_def)
    ultimately show ?thesis using 0 j by auto
  next
    case (Suc i')
    then have "i' < j'" using Cons.prems(2) j by simp
    with t have "blk_set b (ns ! i') \<inter> blk_set b (ns ! j') = {}" using j'len by (rule Cons.IH)
    then show ?thesis using Suc j by simp
  qed
qed


lemma summarize_loop_nonempty: "summarize_loop b f l \<noteq> [] \<Longrightarrow> f \<le> l"
  using summarize_loop_empty[of l f b] by (cases "f \<le> l") simp_all

lemma summarize_loop_drop:
  "l < 2 ^ b \<Longrightarrow> i < length (summarize_loop b f l) \<Longrightarrow>
     \<exists>g. g \<le> l \<and> drop i (summarize_loop b f l) = summarize_loop b g l"
proof (induction i arbitrary: f)
  case 0
  then have "summarize_loop b f l \<noteq> []" by auto
  then have "f \<le> l" by (rule summarize_loop_nonempty)
  then show ?case by auto
next
  case (Suc i)
  from Suc.prems(2) have "summarize_loop b f l \<noteq> []" by auto
  then have fl: "f \<le> l" by (rule summarize_loop_nonempty)
  define f' where "f' = f + 2 ^ block_bits b f l"
  have un: "summarize_loop b f l = (f, b - block_bits b f l) # summarize_loop b f' l"
    unfolding f'_def using fl Suc.prems(1) by (rule summarize_loop_unfold)
  with Suc.prems(2) have "i < length (summarize_loop b f' l)" by simp
  with Suc.prems(1) obtain g where "g \<le> l" "drop i (summarize_loop b f' l) = summarize_loop b g l"
    using Suc.IH by blast
  then show ?case using un by auto
qed

lemma sibling_start_aligned:
  assumes "2 ^ k dvd (f::nat)" and "f div 2 ^ Suc k = (f + 2 ^ k) div 2 ^ Suc k"
  shows "2 ^ Suc k dvd f"
proof -
  from assms(1) obtain q where q: "f = 2 ^ k * q" by (rule dvdE)
  have pw: "(2::nat) ^ Suc k = 2 ^ k * 2" by simp
  have nz: "(2::nat) ^ k \<noteq> 0" by simp
  have dm: "(2 ^ k * a) div (2 ^ k * 2) = a div 2" for a :: nat
    using nz by (rule div_mult_mult1)
  have "f + 2 ^ k = 2 ^ k * Suc q" by (simp add: q)
  then have r: "(f + 2 ^ k) div 2 ^ Suc k = Suc q div 2"
    unfolding pw by (simp only: dm)
  have l: "f div 2 ^ Suc k = q div 2"
    unfolding pw q by (rule dm)
  from assms(2) l r have "q div 2 = Suc q div 2" by simp
  then have "even q" by presburger
  then obtain r where "q = 2 * r" by (rule evenE)
  then have "f = 2 ^ Suc k * r" by (simp add: q)
  then show ?thesis by simp
qed

lemma summarize_loop_no_siblings:
  assumes lb: "l < 2 ^ b"
    and len: "Suc i < length (summarize_loop b f l)"
    and x: "summarize_loop b f l ! i = (n1, p1)"
    and y: "summarize_loop b f l ! Suc i = (n2, p2)"
    and same: "p1 = p2" and pos: "0 < p1"
  shows "n1 div 2 ^ Suc (b - p1) \<noteq> n2 div 2 ^ Suc (b - p1)"
proof
  assume par: "n1 div 2 ^ Suc (b - p1) = n2 div 2 ^ Suc (b - p1)"
  from len have "i < length (summarize_loop b f l)" by simp
  with lb obtain g where gl: "g \<le> l" and dr: "drop i (summarize_loop b f l) = summarize_loop b g l"
    using summarize_loop_drop by blast
  define k where "k = block_bits b g l"
  define g' where "g' = g + 2 ^ k"
  define k' where "k' = block_bits b g' l"
  have un: "summarize_loop b g l = (g, b - k) # summarize_loop b g' l"
    unfolding g'_def k_def using gl lb by (rule summarize_loop_unfold)
  have "length (drop i (summarize_loop b f l)) \<ge> 2" using len by simp
  then have "summarize_loop b g' l \<noteq> []" using dr un by auto
  then have g'l: "g' \<le> l" by (rule summarize_loop_nonempty)
  have un': "summarize_loop b g' l = (g', b - k') # summarize_loop b (g' + 2 ^ k') l"
    unfolding k'_def using g'l lb by (rule summarize_loop_unfold)
  have e0: "drop i (summarize_loop b f l) ! 0 = summarize_loop b f l ! i"
    using len by simp
  have e1: "drop i (summarize_loop b f l) ! 1 = summarize_loop b f l ! Suc i"
    using len by simp
  from e0 dr un x have n1: "n1 = g" and p1: "p1 = b - k" by simp_all
  from e1 dr un un' y have n2: "n2 = g'" and p2: "p2 = b - k'" by simp_all
  have kb: "k \<le> b" unfolding k_def by (rule block_bits_le)
  have k'b: "k' \<le> b" unfolding k'_def by (rule block_bits_le)
  from same p1 p2 kb k'b pos have kk: "k' = k" and klt: "k < b" by simp_all
  have bk: "b - p1 = k" using p1 kb by simp
  have al: "2 ^ k dvd g" unfolding k_def by (rule block_bits_aligned)
  from par have "g div 2 ^ Suc k = (g + 2 ^ k) div 2 ^ Suc k"
    unfolding bk n1 n2 g'_def .
  with al have al2: "2 ^ Suc k dvd g" by (rule sibling_start_aligned)
  have "g' + 2 ^ k' \<le> Suc l" unfolding k'_def using g'l by (rule block_bits_fits)
  then have fit2: "g + 2 ^ Suc k \<le> Suc l" unfolding kk g'_def by simp
  have "Suc k \<le> b" using klt by simp
  with gl have "Suc k \<le> block_bits b g l" using al2 fit2 by (rule block_bits_largest)
  then show False unfolding k_def by simp
qed

section \<open>Cover and minimality of \<open>iprange_to_cidr\<close>\<close>

lemma ip_int_bound: "ip_version a = ip_version e \<Longrightarrow> ip_int e < 2 ^ max_prefixlen a"
proof (cases a; cases e)
  fix x y assume "a = IPv4Address x" "e = IPv4Address y"
  then show ?thesis using unsigned_less[of y, where 'a=nat] by simp
next
  fix x y assume "a = IPv6Address x" "e = IPv6Address y"
  then show ?thesis using unsigned_less[of y, where 'a=nat] by simp
qed simp_all

lemma net_bits_version: "net_bits (IPNetwork (ip_version a) n p) = max_prefixlen a"
  by (cases a) (simp_all add: net_bits_def)

lemma iprange_to_cidr_blocks:
  assumes "ip_address lib start_ip = Inr a" and "ip_address lib end_ip = Inr e"
    and "ip_version a = ip_version e" and "ip_int a \<le> ip_int e"
  shows "iprange_to_cidr lib start_ip end_ip =
           Inr (map (\<lambda>(n, p). IPNetwork (ip_version a) n p)
                    (summarize_loop (max_prefixlen a) (ip_int a) (ip_int e)))"
  using assms by (simp add: iprange_to_cidr_def summarize_address_range_def)

lemma addresses_block:
  "addresses ((\<lambda>(n, p). IPNetwork (ip_version a) n p) x) = blk_set (max_prefixlen a) x"
  by (cases x) (simp add: addresses_def blk_set_def net_bits_version)

text \<open>
  Claim C1. For addresses of one version with \<open>start \<le> end\<close>, the networks that
  \<open>iprange_to_cidr\<close> returns cover exactly the interval of integer addresses from start
  to end: the union of their address sets is the interval, and the address sets of two
  different positions of the list are disjoint.
\<close>

theorem iprange_to_cidr_exact_cover:
  assumes "ip_address lib start_ip = Inr a" and "ip_address lib end_ip = Inr e"
    and "ip_version a = ip_version e" and "ip_int a \<le> ip_int e"
  shows "\<exists>nets. iprange_to_cidr lib start_ip end_ip = Inr nets \<and>
           (\<Union>n\<in>set nets. addresses n) = {ip_int a .. ip_int e} \<and>
           (\<forall>i j. i < j \<and> j < length nets \<longrightarrow> addresses (nets ! i) \<inter> addresses (nets ! j) = {})"
proof -
  define b where "b = max_prefixlen a"
  define xs where "xs = summarize_loop b (ip_int a) (ip_int e)"
  define nets where "nets = map (\<lambda>(n, p). IPNetwork (ip_version a) n p) xs"
  have res: "iprange_to_cidr lib start_ip end_ip = Inr nets"
    unfolding nets_def xs_def b_def using assms by (rule iprange_to_cidr_blocks)
  have bound: "ip_int e < 2 ^ b" unfolding b_def using assms(3) by (rule ip_int_bound)
  have "ip_int a \<le> Suc (ip_int e)" using assms(4) by simp
  then have t: "tiles b (ip_int a) xs (Suc (ip_int e))"
    unfolding xs_def using bound by (rule summarize_loop_tiles)
  have "(\<Union>n\<in>set nets. addresses n) = (\<Union>x\<in>set xs. blk_set b x)"
    unfolding nets_def b_def by (simp add: addresses_block)
  also have "\<dots> = {ip_int a ..< Suc (ip_int e)}" using t by (rule tiles_union)
  also have "\<dots> = {ip_int a .. ip_int e}" by (rule atLeastLessThanSuc_atLeastAtMost)
  finally have cover: "(\<Union>n\<in>set nets. addresses n) = {ip_int a .. ip_int e}" .
  have disj: "addresses (nets ! i) \<inter> addresses (nets ! j) = {}" if "i < j" "j < length nets" for i j
  proof -
    from that have j: "j < length xs" and i: "i < length xs" by (simp_all add: nets_def)
    have "blk_set b (xs ! i) \<inter> blk_set b (xs ! j) = {}" using t that(1) j by (rule tiles_disjoint)
    then show ?thesis unfolding nets_def b_def using i j by (simp add: addresses_block)
  qed
  from res cover disj show ?thesis by blast
qed

theorem iprange_to_cidr_exact_cover_witness:
  "ip_address ipv4_lib ''1.2.3.4'' = Inr (IPv4Address 16909060) \<and>
   ip_address ipv4_lib ''1.2.3.9'' = Inr (IPv4Address 16909065) \<and>
   (\<exists>nets. iprange_to_cidr ipv4_lib ''1.2.3.4'' ''1.2.3.9'' = Inr nets \<and>
      (\<Union>n\<in>set nets. addresses n) = {16909060 .. 16909065} \<and>
      (\<forall>i j. i < j \<and> j < length nets \<longrightarrow> addresses (nets ! i) \<inter> addresses (nets ! j) = {}))"
proof -
  have h1: "ip_address ipv4_lib ''1.2.3.4'' = Inr (IPv4Address 16909060)"
    by (simp add: ipv4_lib_def ipv4_address_def parse_octet_def is_digit_def nat_of_digits_def)
  have h2: "ip_address ipv4_lib ''1.2.3.9'' = Inr (IPv4Address 16909065)"
    by (simp add: ipv4_lib_def ipv4_address_def parse_octet_def is_digit_def nat_of_digits_def)
  have h3: "ip_version (IPv4Address 16909060) = ip_version (IPv4Address 16909065)" by simp
  have h4: "ip_int (IPv4Address 16909060) \<le> ip_int (IPv4Address 16909065)" by simp
  show ?thesis using h1 h2 iprange_to_cidr_exact_cover[OF h1 h2 h3 h4] by simp
qed

text \<open>
  Claim C2. For addresses of one version with \<open>start \<le> end\<close>, no two adjacent networks
  of the list that \<open>iprange_to_cidr\<close> returns are the two halves of a common parent
  network of twice the size, so no merging step applies to the list.
\<close>

theorem iprange_to_cidr_minimal:
  assumes "ip_address lib start_ip = Inr a" and "ip_address lib end_ip = Inr e"
    and "ip_version a = ip_version e" and "ip_int a \<le> ip_int e"
  shows "\<exists>nets. iprange_to_cidr lib start_ip end_ip = Inr nets \<and>
           (\<forall>i. Suc i < length nets \<longrightarrow> \<not> halves_of_common_parent (nets ! i) (nets ! Suc i))"
proof -
  define b where "b = max_prefixlen a"
  define xs where "xs = summarize_loop b (ip_int a) (ip_int e)"
  define nets where "nets = map (\<lambda>(n, p). IPNetwork (ip_version a) n p) xs"
  have res: "iprange_to_cidr lib start_ip end_ip = Inr nets"
    unfolding nets_def xs_def b_def using assms by (rule iprange_to_cidr_blocks)
  have bound: "ip_int e < 2 ^ b" unfolding b_def using assms(3) by (rule ip_int_bound)
  have "\<not> halves_of_common_parent (nets ! i) (nets ! Suc i)" if len: "Suc i < length nets" for i
  proof
    assume h: "halves_of_common_parent (nets ! i) (nets ! Suc i)"
    from len have lx: "Suc i < length xs" by (simp add: nets_def)
    obtain n1 p1 where x: "xs ! i = (n1, p1)" by (cases "xs ! i")
    obtain n2 p2 where y: "xs ! Suc i = (n2, p2)" by (cases "xs ! Suc i")
    have ni: "nets ! i = IPNetwork (ip_version a) n1 p1" using lx x by (simp add: nets_def)
    have nj: "nets ! Suc i = IPNetwork (ip_version a) n2 p2" using lx y by (simp add: nets_def)
    have nb: "net_bits (nets ! i) = b" unfolding ni b_def by (rule net_bits_version)
    from h have same: "p1 = p2" and pos: "0 < p1"
      and par: "n1 div 2 ^ Suc (b - p1) = n2 div 2 ^ Suc (b - p1)"
      unfolding halves_of_common_parent_def nb unfolding ni nj by auto
    have "n1 div 2 ^ Suc (b - p1) \<noteq> n2 div 2 ^ Suc (b - p1)"
      using bound lx[unfolded xs_def] x[unfolded xs_def] y[unfolded xs_def] same pos
      by (rule summarize_loop_no_siblings)
    with par show False by simp
  qed
  with res show ?thesis by blast
qed

theorem iprange_to_cidr_minimal_witness:
  "ip_address ipv4_lib ''1.2.3.4'' = Inr (IPv4Address 16909060) \<and>
   ip_address ipv4_lib ''1.2.3.9'' = Inr (IPv4Address 16909065) \<and>
   (\<exists>nets. iprange_to_cidr ipv4_lib ''1.2.3.4'' ''1.2.3.9'' = Inr nets \<and>
      (\<forall>i. Suc i < length nets \<longrightarrow> \<not> halves_of_common_parent (nets ! i) (nets ! Suc i)))"
proof -
  have h1: "ip_address ipv4_lib ''1.2.3.4'' = Inr (IPv4Address 16909060)"
    by (simp add: ipv4_lib_def ipv4_address_def parse_octet_def is_digit_def nat_of_digits_def)
  have h2: "ip_address ipv4_lib ''1.2.3.9'' = Inr (IPv4Address 16909065)"
    by (simp add: ipv4_lib_def ipv4_address_def parse_octet_def is_digit_def nat_of_digits_def)
  have h3: "ip_version (IPv4Address 16909060) = ip_version (IPv4Address 16909065)" by simp
  have h4: "ip_int (IPv4Address 16909060) \<le> ip_int (IPv4Address 16909065)" by simp
  show ?thesis using h1 h2 iprange_to_cidr_minimal[OF h1 h2 h3 h4] by simp
qed

section \<open>The range parser\<close>

lemma parse_lines_step:
  "parse_lines (line # rest) asn =
     (if skipped line then parse_lines rest asn
      else if length (line_fields line) < 3 then ([], Some IndexError)
      else if line_fields line ! 2 = str_int asn
        then ((line_fields line ! 0, line_fields line ! 1) # fst (parse_lines rest asn), snd (parse_lines rest asn))
        else parse_lines rest asn)"
  by (simp add: skipped_def line_fields_def Let_def split: prod.splits)

lemma ipt_parse_lines_step:
  "ipt_parse_lines (line # rest) asn =
     (if skipped line then ipt_parse_lines rest asn
      else if length (line_fields line) \<noteq> 3 then ([], Some ValueError)
      else if line_fields line ! 2 = str_int asn
        then ((line_fields line ! 0, line_fields line ! 1) # fst (ipt_parse_lines rest asn),
              snd (ipt_parse_lines rest asn))
        else ipt_parse_lines rest asn)"
  by (simp add: skipped_def line_fields_def Let_def split: prod.splits)

lemma parse_lines_shaped:
  "\<forall>line\<in>set lines. \<not> skipped line \<longrightarrow> 3 \<le> length (line_fields line) \<Longrightarrow>
   parse_lines lines asn =
     (map (\<lambda>line. (line_fields line ! 0, line_fields line ! 1))
          (filter (\<lambda>line. \<not> skipped line \<and> line_fields line ! 2 = str_int asn) lines), None)"
proof (induction lines)
  case Nil
  show ?case by simp
next
  case (Cons line rest)
  then have IH: "parse_lines rest asn =
     (map (\<lambda>line. (line_fields line ! 0, line_fields line ! 1))
          (filter (\<lambda>line. \<not> skipped line \<and> line_fields line ! 2 = str_int asn) rest), None)"
    by simp
  from Cons.prems have "\<not> skipped line \<longrightarrow> \<not> length (line_fields line) < 3" by auto
  then show ?case unfolding parse_lines_step IH by auto
qed

lemma ipt_parse_lines_shaped:
  "\<forall>line\<in>set lines. \<not> skipped line \<longrightarrow> length (line_fields line) = 3 \<Longrightarrow>
   ipt_parse_lines lines asn =
     (map (\<lambda>line. (line_fields line ! 0, line_fields line ! 1))
          (filter (\<lambda>line. \<not> skipped line \<and> line_fields line ! 2 = str_int asn) lines), None)"
proof (induction lines)
  case Nil
  show ?case by simp
next
  case (Cons line rest)
  then have IH: "ipt_parse_lines rest asn =
     (map (\<lambda>line. (line_fields line ! 0, line_fields line ! 1))
          (filter (\<lambda>line. \<not> skipped line \<and> line_fields line ! 2 = str_int asn) rest), None)"
    by simp
  from Cons.prems have "\<not> skipped line \<longrightarrow> length (line_fields line) = 3" by auto
  then show ?case unfolding ipt_parse_lines_step IH by auto
qed

lemmas string_eval = startswith_def strip_def isspace_def TAB_def dataset_line_def Let_def
  str_int_def str_nat.simps digit_char_def skipped_def line_fields_def

text \<open>
  A line of two fields ends \<open>parse_dataset\<close> with \<^verbatim>\<open>IndexError\<close>: a line with too few
  fields is not skipped.
\<close>

theorem parse_lines_counterexample:
  "parse_lines [''1.2.3.4'' @ [TAB] @ ''1.2.3.9'' @ [CHR 0x0A]] 64500 = ([], Some IndexError)"
  by (simp add: startswith_def strip_def isspace_def TAB_def Let_def)

text \<open>
  Claim C6, as amended. On every dataset text the parser skips comment lines and blank
  lines. It yields pairs only for lines that are not skipped and whose third
  tab-separated field is the decimal text of the target ASN: exactly those, in order,
  that come before the first line that is neither skipped nor has three fields or more.
  At that line it ends with \<^verbatim>\<open>IndexError\<close>; on a text without such a line it does not
  fail. A line with more than three fields is parsed like one with three.
\<close>

theorem parse_lines_every_text:
  "parse_lines lines asn =
     (map (\<lambda>line. (line_fields line ! 0, line_fields line ! 1))
          (filter (\<lambda>line. \<not> skipped line \<and> line_fields line ! 2 = str_int asn)
                  (takeWhile well_shaped lines)),
      if list_all well_shaped lines then None else Some IndexError)"
proof (induction lines)
  case Nil
  show ?case by simp
next
  case (Cons line rest)
  show ?case
  proof (cases "well_shaped line")
    case False
    then show ?thesis unfolding parse_lines_step by (simp add: well_shaped_def)
  next
    case True
    then have "skipped line \<or> \<not> length (line_fields line) < 3" by (auto simp add: well_shaped_def)
    then show ?thesis unfolding parse_lines_step Cons.IH using True by auto
  qed
qed

section \<open>Evaluation of the effects\<close>

lemmas prog_simps = ret_def raise_def bindp_def thenp_def emit_def py_print_def
  logger_info_def logger_warning_def logger_error_def events_of_def system_of_def result_of_def

lemmas bin_defs = BIN_SYSTEMCTL_def BIN_FIREWALL_CMD_def BIN_UFW_def BIN_IPSET_def
  BIN_IPTABLES_def BIN_IP6TABLES_def

lemma is_service_active_eval:
  "is_service_active service s =
     ([Run [BIN_SYSTEMCTL, ''is-active'', ''--quiet'', service]], s, Inr (service \<in> set (services s)))"
  by (simp add: is_service_active_def subprocess_run_def exec_def prog_simps)

lemma detect_conflict:
  "2 \<le> length (active_backends s) \<Longrightarrow>
   detect_firewall_backend s =
     (detect_queries s @
      [Log ''ERROR'' ''Multiple conflicting firewall systems detected. Please ensure only one is active.''],
      s, Inr ''conflict'')"
  by (auto simp add: detect_firewall_backend_def is_service_active_eval prog_simps detect_queries_def
      active_backends_def backend_active_def split: if_splits)

lemma detect_single:
  "length (active_backends s) \<le> 1 \<Longrightarrow>
   detect_firewall_backend s =
     (detect_queries s, s, Inr (case active_backends s of [] \<Rightarrow> ''unknown'' | b # bs \<Rightarrow> b))"
  by (auto simp add: detect_firewall_backend_def is_service_active_eval prog_simps detect_queries_def
      active_backends_def backend_active_def split: if_splits)

lemma detect_queries_harmless: "list_all query_or_message (detect_queries s)"
  by (simp add: detect_queries_def is_active_query_def)

section \<open>Validation of the ASN\<close>

text \<open>The value \<open>2 ^ 32 - 1\<close> lies in the range 1 to \<open>2 ^ 32 - 1\<close> and is rejected.\<close>

theorem invalid_asn_counterexample:
  "\<not> validate_asn 4294967295 \<and> (1::int) \<le> 4294967295 \<and> (4294967295::int) \<le> 2 ^ 32 - 1"
  by (simp add: validate_asn_def)

text \<open>
  Claim C5, as amended. An ASN is valid exactly when it lies in the range 1 to
  \<open>2 ^ 32 - 2\<close>. For every other ASN, block and unblock of both scripts log the error
  and return: no backend detection, no dataset access, no external command, and the
  system is unchanged (\<^verbatim>\<open>asn_block.py\<close> prints its heading line first).
\<close>

theorem invalid_asn_aborts:
  "(validate_asn asn \<longleftrightarrow> 1 \<le> asn \<and> asn \<le> 2 ^ 32 - 2) \<and>
   (\<not> validate_asn asn \<longrightarrow>
      create_ipset_and_rules lib asn dry_run s =
        ([Print ''--- Creating block rules ---'', Log ''ERROR'' ''Invalid ASN.''], s, Inr ()) \<and>
      cleanup_ipsets lib asn dry_run s =
        ([Print ''--- Cleaning up block rules ---'', Log ''ERROR'' ''Invalid ASN.''], s, Inr ()) \<and>
      ipt_create_ipset_and_rules lib asn dry_run s = ([Log ''ERROR'' ''Invalid ASN.''], s, Inr ()) \<and>
      ipt_cleanup_ipsets asn s = ([Log ''ERROR'' ''Invalid ASN.''], s, Inr ()))"
proof -
  have "validate_asn asn \<longleftrightarrow> 1 \<le> asn \<and> asn \<le> 2 ^ 32 - 2"
    unfolding validate_asn_def by auto
  then show ?thesis
    by (simp add: create_ipset_and_rules_def cleanup_ipsets_def ipt_create_ipset_and_rules_def
        ipt_cleanup_ipsets_def prog_simps)
qed

theorem invalid_asn_aborts_witness:
  "\<not> validate_asn 4294967295 \<and>
   create_ipset_and_rules ipv4_lib 4294967295 False (example_system [''iptables'']) =
     ([Print ''--- Creating block rules ---'', Log ''ERROR'' ''Invalid ASN.''],
      example_system [''iptables''], Inr ()) \<and>
   cleanup_ipsets ipv4_lib 4294967295 False (example_system [''iptables'']) =
     ([Print ''--- Cleaning up block rules ---'', Log ''ERROR'' ''Invalid ASN.''],
      example_system [''iptables''], Inr ())"
proof -
  have h: "\<not> validate_asn 4294967295" by (simp add: validate_asn_def)
  with invalid_asn_aborts[of 4294967295 ipv4_lib False "example_system [''iptables'']"]
  show ?thesis by blast
qed

section \<open>Backend detection\<close>

text \<open>
  With the units \<open>iptables\<close> and \<open>ip6tables\<close> both active, two services report active
  and the result is the iptables backend, not a conflict.
\<close>

theorem detect_firewall_backend_counterexample:
  "''iptables'' \<in> set (services (example_system [''iptables'', ''ip6tables''])) \<and>
   ''ip6tables'' \<in> set (services (example_system [''iptables'', ''ip6tables''])) \<and>
   result_of (detect_firewall_backend (example_system [''iptables'', ''ip6tables''])) = Inr ''iptables''"
  by (simp add: detect_firewall_backend_def is_service_active_eval prog_simps example_system_def)

text \<open>
  Claim C3, as amended. The iptables backend counts as active when the \<open>iptables\<close> or
  the \<open>ip6tables\<close> unit is. When none of the three backends is active the result is
  \<open>unknown\<close>; when exactly one is, the result is that backend; when two or more are, the
  result is \<open>conflict\<close>, and then block and unblock leave the system unchanged and cause
  only activation queries, printed lines and log records.
\<close>

theorem detect_firewall_backend_exclusive:
  "(active_backends s = [] \<longrightarrow> result_of (detect_firewall_backend s) = Inr ''unknown'') \<and>
   (\<forall>b. active_backends s = [b] \<longrightarrow> result_of (detect_firewall_backend s) = Inr b) \<and>
   (2 \<le> length (active_backends s) \<longrightarrow>
      result_of (detect_firewall_backend s) = Inr ''conflict'' \<and>
      system_of (create_ipset_and_rules lib asn dry_run s) = s \<and>
      list_all query_or_message (events_of (create_ipset_and_rules lib asn dry_run s)) \<and>
      system_of (cleanup_ipsets lib asn' dry_run' s) = s \<and>
      list_all query_or_message (events_of (cleanup_ipsets lib asn' dry_run' s)))"
proof (intro conjI allI impI)
  assume "active_backends s = []"
  then show "result_of (detect_firewall_backend s) = Inr ''unknown''"
    by (simp add: detect_single result_of_def)
next
  fix b assume "active_backends s = [b]"
  then show "result_of (detect_firewall_backend s) = Inr b"
    by (simp add: detect_single result_of_def)
next
  assume c: "2 \<le> length (active_backends s)"
  note d = detect_conflict[OF c]
  show "result_of (detect_firewall_backend s) = Inr ''conflict''"
    by (simp add: d result_of_def)
  show "system_of (create_ipset_and_rules lib asn dry_run s) = s"
    by (simp add: create_ipset_and_rules_def d prog_simps)
  show "list_all query_or_message (events_of (create_ipset_and_rules lib asn dry_run s))"
    using detect_queries_harmless[of s] by (simp add: create_ipset_and_rules_def d prog_simps)
  show "system_of (cleanup_ipsets lib asn' dry_run' s) = s"
    by (simp add: cleanup_ipsets_def d prog_simps)
  show "list_all query_or_message (events_of (cleanup_ipsets lib asn' dry_run' s))"
    using detect_queries_harmless[of s] by (simp add: cleanup_ipsets_def d prog_simps)
qed

lemma active_backends_example:
  "active_backends (example_system active) =
     filter (\<lambda>b. if b = ''iptables'' then ''iptables'' \<in> set active \<or> ''ip6tables'' \<in> set active
                  else b \<in> set active) [''firewalld'', ''ufw'', ''iptables'']"
  by (simp add: active_backends_def backend_active_def example_system_def)

theorem detect_firewall_backend_exclusive_witness:
  "active_backends (example_system []) = [] \<and>
   result_of (detect_firewall_backend (example_system [])) = Inr ''unknown'' \<and>
   active_backends (example_system [''ip6tables'']) = [''iptables''] \<and>
   result_of (detect_firewall_backend (example_system [''ip6tables''])) = Inr ''iptables'' \<and>
   2 \<le> length (active_backends (example_system [''firewalld'', ''ufw''])) \<and>
   result_of (detect_firewall_backend (example_system [''firewalld'', ''ufw''])) = Inr ''conflict'' \<and>
   system_of (create_ipset_and_rules ipv4_lib 64500 False (example_system [''firewalld'', ''ufw''])) =
     example_system [''firewalld'', ''ufw''] \<and>
   list_all query_or_message
     (events_of (create_ipset_and_rules ipv4_lib 64500 False (example_system [''firewalld'', ''ufw''])))"
proof -
  have h0: "active_backends (example_system []) = []"
    by (simp add: active_backends_example)
  have h1: "active_backends (example_system [''ip6tables'']) = [''iptables'']"
    by (simp add: active_backends_example)
  have h2: "2 \<le> length (active_backends (example_system [''firewalld'', ''ufw'']))"
    by (simp add: active_backends_example)
  from h0 detect_firewall_backend_exclusive[of "example_system []"]
  have r0: "result_of (detect_firewall_backend (example_system [])) = Inr ''unknown''" by blast
  from h1 detect_firewall_backend_exclusive[of "example_system [''ip6tables'']"]
  have r1: "result_of (detect_firewall_backend (example_system [''ip6tables''])) = Inr ''iptables''"
    by blast
  from h2 detect_firewall_backend_exclusive[of "example_system [''firewalld'', ''ufw'']" ipv4_lib 64500 False]
  have r2: "result_of (detect_firewall_backend (example_system [''firewalld'', ''ufw''])) = Inr ''conflict'' \<and>
   system_of (create_ipset_and_rules ipv4_lib 64500 False (example_system [''firewalld'', ''ufw''])) =
     example_system [''firewalld'', ''ufw''] \<and>
   list_all query_or_message
     (events_of (create_ipset_and_rules ipv4_lib 64500 False (example_system [''firewalld'', ''ufw''])))"
    by blast
  from h0 h1 h2 r0 r1 r2 show ?thesis by blast
qed

section \<open>Runs on given systems\<close>

lemmas script_defs = is_service_active_def ensure_data_dir_def download_file_def update_datasets_def
  ensure_datasets_def parse_dataset_def detect_firewall_backend_def dry_run_line_def
  create_or_reset_ipset_def add_ip_to_ipset_def apply_firewalld_rule_def remove_firewalld_rule_def
  apply_ufw_rule_def remove_ufw_rule_def apply_iptables_rule_def remove_iptables_rule_def
  block_cidr_list_def create_ipset_and_rules_version_def create_ipset_and_rules_def
  unblock_cidr_list_def cleanup_ipsets_version_def cleanup_ipsets_def main_def
  ipt_download_file_def ipt_update_datasets_def ipt_ensure_datasets_def ipt_parse_dataset_def
  ipt_add_cidrs_def ipt_create_ipset_and_rules_version_def ipt_create_ipset_and_rules_def
  ipt_cleanup_ipsets_def ipt_main_def for_generated_def subprocess_run_def path_exists_def
  exec_def ipset_exists_def match_set_rule_def validate_asn_def iprange_to_cidr_def
  summarize_address_range_def

lemmas library_eval = ipv4_lib_def ipv4_address_def ipv4_net_str_def three_fields_def parse_octet_def
  is_digit_def nat_of_digits_def summarize_loop.simps trailing_zeros.simps bit_length.simps
  count_righthand_zero_bits_def

lemmas system_eval = example_system_def example_files_def system_without_datasets_def
  three_field_system_def three_field_lines_def blocked_system_def referenced_system_def FILES_def
  DATA_DIR_def
  IPTOASN_V4_URL_def IPTOASN_V6_URL_def QUOTE_def LINE_PATTERN_def IPT_LINE_PATTERN_def BACKSLASH_def

text \<open>
  Claim C7 says that a missing dataset file makes block and unblock fetch the datasets
  and go on. In \<^verbatim>\<open>asn_block.py\<close>, \<open>cleanup_ipsets\<close> opens the dataset without
  \<open>ensure_datasets\<close>: with the files missing, unblock ends with
  \<^verbatim>\<open>FileNotFoundError\<close> before any request and before any rule or set is removed,
  while block on the same system fetches both datasets and completes.
\<close>

theorem cleanup_ipsets_missing_dataset:
  "cleanup_ipsets ipv4_lib 64500 False (system_without_datasets [''firewalld'']) =
     ([Print ''--- Cleaning up block rules ---'',
       Run [BIN_SYSTEMCTL, ''is-active'', ''--quiet'', ''firewalld''],
       Run [BIN_SYSTEMCTL, ''is-active'', ''--quiet'', ''ufw''],
       Run [BIN_SYSTEMCTL, ''is-active'', ''--quiet'', ''iptables''],
       Run [BIN_SYSTEMCTL, ''is-active'', ''--quiet'', ''ip6tables''],
       Print ''Firewall system detected: firewalld'',
       Open (FILES ''v4'')],
      system_without_datasets [''firewalld''], Inl FileNotFoundError) \<and>
   result_of (create_ipset_and_rules ipv4_lib 64500 False (system_without_datasets [''firewalld''])) = Inr () \<and>
   take 6 (drop 9 (events_of (create_ipset_and_rules ipv4_lib 64500 False
                                (system_without_datasets [''firewalld''])))) =
     [Log ''INFO'' ''Downloading IPv4 dataset...'', Get IPTOASN_V4_URL, Write (FILES ''v4''),
      Log ''INFO'' ''Downloading IPv6 dataset...'', Get IPTOASN_V6_URL, Write (FILES ''v6'')]"
  by (simp add: script_defs prog_simps bin_defs string_eval system_eval library_eval)

text \<open>
  Claim C8 says that the iptables rule is inserted only after a check for an identical
  rule, so that blocking twice leaves one rule for each set. In \<^verbatim>\<open>asn_block.py\<close>,
  \<open>apply_iptables_rule\<close> inserts without a check: blocking AS 64500 twice leaves two
  identical rules for each set. The other script checks first, see
  \<open>ipt_create_ipset_and_rules_twice\<close>.
\<close>

theorem apply_iptables_rule_duplicates:
  "system_of (create_ipset_and_rules ipv4_lib 64500 False (example_system [''iptables''])) = blocked_system \<and>
   rules (system_of (create_ipset_and_rules ipv4_lib 64500 False blocked_system)) =
     [(BIN_IP6TABLES, ''ASN64500_v6''), (BIN_IPTABLES, ''ASN64500_v4''),
      (BIN_IP6TABLES, ''ASN64500_v6''), (BIN_IPTABLES, ''ASN64500_v4'')]"
  by (simp add: script_defs prog_simps bin_defs string_eval system_eval library_eval)

lemma ipt_create_ipset_and_rules_twice:
  "system_of (ipt_create_ipset_and_rules ipv4_lib 64500 False (three_field_system [''iptables''])) =
     (three_field_system [''iptables''])
       \<lparr>ipsets := [(''ASN64500_v4'', [''1.2.3.4/30'', ''1.2.3.8/31'']), (''ASN64500_v6'', [])],
        rules := [(BIN_IP6TABLES, ''ASN64500_v6''), (BIN_IPTABLES, ''ASN64500_v4'')]\<rparr> \<and>
   rules (system_of (ipt_create_ipset_and_rules ipv4_lib 64500 False
     ((three_field_system [''iptables''])
       \<lparr>ipsets := [(''ASN64500_v4'', [''1.2.3.4/30'', ''1.2.3.8/31'']), (''ASN64500_v6'', [])],
        rules := [(BIN_IP6TABLES, ''ASN64500_v6''), (BIN_IPTABLES, ''ASN64500_v4'')]\<rparr>))) =
     [(BIN_IP6TABLES, ''ASN64500_v6''), (BIN_IPTABLES, ''ASN64500_v4'')]"
  by (simp add: script_defs prog_simps bin_defs string_eval system_eval library_eval)

section \<open>The CIDR list at block time and at unblock time\<close>

lemma result_of_bindp:
  "result_of (bindp m f s) =
     (case result_of (m s) of Inl e \<Rightarrow> Inl e | Inr x \<Rightarrow> result_of (f x (system_of (m s))))"
  by (simp add: bindp_def result_of_def system_of_def split: prod.splits sum.splits)

lemma for_loop_result_cong:
  assumes "\<And>x acc s s'. result_of (f x acc s) = result_of (g x acc s')"
  shows "result_of (for_loop xs acc f s) = result_of (for_loop xs acc g s')"
proof (induction xs arbitrary: acc s s')
  case Nil
  show ?case by (simp add: ret_def result_of_def)
next
  case (Cons x xs)
  have r: "result_of (f x acc s) = result_of (g x acc s')" by (rule assms)
  show ?case
  proof (cases "result_of (g x acc s')")
    case (Inl e)
    with r show ?thesis by (simp add: result_of_bindp)
  next
    case (Inr a)
    with r Cons.IH[of a "system_of (f x acc s)" "system_of (g x acc s')"]
    show ?thesis by (simp add: result_of_bindp)
  qed
qed

lemma result_of_for_generated:
  "result_of (for_generated gen acc f s) =
     (case result_of (for_loop (fst gen) acc f s) of
        Inl e \<Rightarrow> Inl e
      | Inr a \<Rightarrow> (case snd gen of None \<Rightarrow> Inr a | Some e \<Rightarrow> Inl e))"
  unfolding for_generated_def result_of_bindp
  by (simp add: ret_def raise_def result_of_def split: sum.splits option.splits)

lemma for_generated_result_cong:
  assumes "\<And>x acc s s'. result_of (f x acc s) = result_of (g x acc s')"
  shows "result_of (for_generated gen acc f s) = result_of (for_generated gen acc g s')"
proof -
  have "result_of (for_loop (fst gen) acc f s) = result_of (for_loop (fst gen) acc g s')"
    using assms by (rule for_loop_result_cong)
  then show ?thesis unfolding result_of_for_generated by simp
qed

lemma add_ip_to_ipset_result: "result_of (add_ip_to_ipset ipset_name cidr dry_run s) = Inr ()"
  by (simp add: add_ip_to_ipset_def subprocess_run_def prog_simps Let_def split: prod.splits)

lemma cidr_list_results_agree:
  assumes "map_of (files s) (FILES version) = map_of (files s') (FILES version)"
  shows "result_of (block_cidr_list lib asn version ipset_name dry_run s) =
         result_of (unblock_cidr_list lib asn version s')"
proof (cases "map_of (files s) (FILES version)")
  case None
  with assms show ?thesis
    by (simp add: block_cidr_list_def unblock_cidr_list_def parse_dataset_def bindp_def result_of_def)
next
  case (Some lines)
  have inner: "result_of (for_loop nets acc
          (\<lambda>net cidr_list. let cidr = net_str lib net in
             thenp (add_ip_to_ipset ipset_name cidr dry_run) (ret (cidr_list @ [cidr]))) t) =
        result_of (for_loop nets acc (\<lambda>net cidr_list. ret (cidr_list @ [net_str lib net])) t')"
    for nets acc t t'
  proof (rule for_loop_result_cong)
    fix x acc s s'
    show "result_of ((let cidr = net_str lib x in
             thenp (add_ip_to_ipset ipset_name cidr dry_run) (ret (acc @ [cidr]))) s) =
          result_of (ret (acc @ [net_str lib x]) s')"
      using add_ip_to_ipset_result[of ipset_name "net_str lib x" dry_run s]
      by (simp add: Let_def thenp_def result_of_bindp) (simp add: ret_def result_of_def)
  qed
  have outer: "result_of (for_generated gen []
          (\<lambda>(start, end) cidr_list. case iprange_to_cidr lib start end of
             Inl e \<Rightarrow> raise e
           | Inr nets \<Rightarrow> for_loop nets cidr_list
               (\<lambda>net cidr_list. let cidr = net_str lib net in
                  thenp (add_ip_to_ipset ipset_name cidr dry_run) (ret (cidr_list @ [cidr])))) t) =
        result_of (for_generated gen []
          (\<lambda>(start, end) cidr_list. case iprange_to_cidr lib start end of
             Inl e \<Rightarrow> raise e
           | Inr nets \<Rightarrow> for_loop nets cidr_list
               (\<lambda>net cidr_list. ret (cidr_list @ [net_str lib net]))) t')"
    for gen t t'
  proof (rule for_generated_result_cong)
    fix x :: "string \<times> string" and acc s s'
    obtain a b where x: "x = (a, b)" by (cases x)
    show "result_of ((case x of (start, end) \<Rightarrow> \<lambda>cidr_list. case iprange_to_cidr lib start end of
             Inl e \<Rightarrow> raise e
           | Inr nets \<Rightarrow> for_loop nets cidr_list
               (\<lambda>net cidr_list. let cidr = net_str lib net in
                  thenp (add_ip_to_ipset ipset_name cidr dry_run) (ret (cidr_list @ [cidr])))) acc s) =
          result_of ((case x of (start, end) \<Rightarrow> \<lambda>cidr_list. case iprange_to_cidr lib start end of
             Inl e \<Rightarrow> raise e
           | Inr nets \<Rightarrow> for_loop nets cidr_list
               (\<lambda>net cidr_list. ret (cidr_list @ [net_str lib net]))) acc s')"
      unfolding x using inner by (cases "iprange_to_cidr lib a b") (simp_all add: raise_def result_of_def)
  qed
  from Some assms have s': "map_of (files s') (FILES version) = Some lines" by simp
  have p: "parse_dataset (FILES version) asn s = ([Open (FILES version)], s, Inr (parse_lines lines asn))"
    by (simp add: parse_dataset_def Some)
  have p': "parse_dataset (FILES version) asn s' = ([Open (FILES version)], s', Inr (parse_lines lines asn))"
    by (simp add: parse_dataset_def s')
  have rp: "result_of (parse_dataset (FILES version) asn s) = Inr (parse_lines lines asn)"
    "system_of (parse_dataset (FILES version) asn s) = s"
    "result_of (parse_dataset (FILES version) asn s') = Inr (parse_lines lines asn)"
    "system_of (parse_dataset (FILES version) asn s') = s'"
    by (simp_all add: p p' result_of_def system_of_def)
  show ?thesis
    unfolding block_cidr_list_def unblock_cidr_list_def result_of_bindp rp
    using outer[of "parse_lines lines asn" s s'] by simp
qed

text \<open>
  Claim C9. For one dataset content, the list of CIDR strings that \<open>cleanup_ipsets\<close>
  computes again is the list that \<open>create_ipset_and_rules\<close> collected while it filled
  the set, for the same ASN and version, whatever the rest of the two systems and
  whether or not the block was a dry run; when one loop ends with an exception, the
  other ends with the same exception.
\<close>

theorem cidr_list_symmetry:
  assumes "map_of (files s) (FILES version) = map_of (files s') (FILES version)"
  shows "result_of (block_cidr_list lib asn version ipset_name dry_run s) =
         result_of (unblock_cidr_list lib asn version s')"
  using assms by (rule cidr_list_results_agree)

theorem cidr_list_symmetry_witness:
  "result_of (block_cidr_list ipv4_lib 64500 ''v4'' ''ASN64500_v4'' False (example_system [''ufw''])) =
   result_of (unblock_cidr_list ipv4_lib 64500 ''v4'' blocked_system) \<and>
   result_of (unblock_cidr_list ipv4_lib 64500 ''v4'' blocked_system) =
     Inr [''1.2.3.4/30'', ''1.2.3.8/31'']"
proof -
  have h: "map_of (files (example_system [''ufw''])) (FILES ''v4'') =
           map_of (files blocked_system) (FILES ''v4'')"
    by (simp add: example_system_def blocked_system_def)
  have v: "result_of (unblock_cidr_list ipv4_lib 64500 ''v4'' blocked_system) =
     Inr [''1.2.3.4/30'', ''1.2.3.8/31'']"
    by (simp add: script_defs prog_simps bin_defs string_eval system_eval library_eval)
  from cidr_list_symmetry[OF h] v show ?thesis by simp
qed

section \<open>Block and unblock without a firewall backend\<close>

lemma bindp_eval:
  "m s = (t, s', Inr x) \<Longrightarrow> f x s' = (t', s'', r) \<Longrightarrow> bindp m f s = (t @ t', s'', r)"
  by (simp add: bindp_def)


lemma commands_append [simp]: "commands (t @ u) = commands t @ commands u"
  by (simp add: commands_def)

lemma commands_Run [simp]: "commands (map Run cmds) = cmds"
  by (induction cmds) (simp_all add: commands_def)

lemma commands_Cons [simp]:
  "commands (Run cmd # t) = cmd # commands t"
  "commands (Print line # t) = commands t"
  "commands (Log level msg # t) = commands t"
  "commands (Mkdir path # t) = commands t"
  "commands (Open path # t) = commands t"
  "commands [] = []"
  by (simp_all add: commands_def)

lemma only_ipset_changed_refl: "only_ipset_changed name s s"
  by (simp add: only_ipset_changed_def)

lemma only_ipset_changed_trans:
  "only_ipset_changed name s s' \<Longrightarrow> only_ipset_changed name s' s'' \<Longrightarrow> only_ipset_changed name s s''"
  by (simp add: only_ipset_changed_def)

lemma only_ipset_changed_exists:
  "only_ipset_changed name s s' \<Longrightarrow> other \<noteq> name \<Longrightarrow> ipset_exists s' other = ipset_exists s other"
  by (simp add: only_ipset_changed_def ipset_exists_def)

lemma map_of_filter_other:
  "other \<noteq> name \<Longrightarrow> map_of (filter (\<lambda>p. fst p \<noteq> name) xs) other = map_of xs other"
  by (induction xs) auto

lemma map_of_map_other:
  "other \<noteq> name \<Longrightarrow> map_of (map (\<lambda>p. if fst p = name then (fst p, g p) else p) xs) other = map_of xs other"
  by (induction xs) auto

lemma map_of_snoc_other:
  "other \<noteq> name \<Longrightarrow> map_of (xs @ [(name, v)]) other = map_of xs other"
  by (induction xs) auto

lemma exec_list: "exec [BIN_IPSET, ''list'', name] s = (if ipset_exists s name then 0 else 1, s)"
  by (simp add: exec_def bin_defs)

lemma map_of_filter_same: "map_of (filter (\<lambda>p. fst p \<noteq> name) xs) name = None"
  by (induction xs) auto

lemma map_of_map_same:
  "map_of (map (\<lambda>p. if fst p = name then (fst p, g (snd p)) else p) xs) name =
     map_option g (map_of xs name)"
  by (induction xs) auto

lemma add_members_append: "add_members (add_members m a) b = add_members m (a @ b)"
  by (simp add: add_members_def)

lemma set_add_members: "set (add_members m cidrs) = set m \<union> set cidrs"
proof (induction cidrs arbitrary: m)
  case Nil
  show ?case by (simp add: add_members_def)
next
  case (Cons c cidrs)
  have "add_members m (c # cidrs) = add_members (if c \<in> set m then m else m @ [c]) cidrs"
    by (simp add: add_members_def)
  then show ?case using Cons.IH[of "if c \<in> set m then m else m @ [c]"] by auto
qed

lemma filled_refl: "filled name [] s s"
  by (simp add: filled_def only_ipset_changed_refl add_members_def option.map_ident)

lemma filled_trans:
  assumes "filled name a s s1" and "filled name b s1 s2"
  shows "filled name (a @ b) s s2"
proof -
  have "only_ipset_changed name s s2"
    using assms only_ipset_changed_trans unfolding filled_def by blast
  moreover have "map_of (ipsets s2) name =
      map_option (\<lambda>m. add_members m (a @ b)) (map_of (ipsets s) name)"
    using assms unfolding filled_def
    by (cases "map_of (ipsets s) name") (simp_all add: add_members_append)
  ultimately show ?thesis unfolding filled_def by simp
qed

lemma filled_changed: "filled name cidrs s s' \<Longrightarrow> only_ipset_changed name s s'"
  by (simp add: filled_def)

lemma exec_destroy:
  "\<exists>rc s'. exec [BIN_IPSET, ''destroy'', name] s = (rc, s') \<and> only_ipset_changed name s s' \<and>
            map_of (ipsets s') name =
              (if name \<in> snd ` set (rules s) then map_of (ipsets s) name else None)"
  by (auto simp add: exec_def bin_defs only_ipset_changed_def map_of_filter_other map_of_filter_same
      ipset_exists_def)

lemma exec_create:
  "\<exists>rc s'. exec [BIN_IPSET, ''create'', name, ''hash:net'', ''family'', family] s = (rc, s') \<and>
            only_ipset_changed name s s' \<and>
            map_of (ipsets s') name =
              Some (case map_of (ipsets s) name of None \<Rightarrow> [] | Some m \<Rightarrow> m)"
  by (auto simp add: exec_def bin_defs only_ipset_changed_def map_add_def ipset_exists_def
      split: option.splits)

lemma map_of_map_snoc:
  "map_of (map (\<lambda>p. if fst p = name then (fst p, snd p @ [c]) else p) xs) name =
     map_option (\<lambda>m. m @ [c]) (map_of xs name)"
  by (induction xs) auto

lemma exec_add:
  "\<exists>rc s'. exec [BIN_IPSET, ''add'', name, cidr] s = (rc, s') \<and> filled name [cidr] s s'"
  by (simp add: exec_def bin_defs filled_def only_ipset_changed_def map_of_map_other map_of_map_snoc
      add_members_def split: option.splits)

lemma run_destroy:
  "\<exists>rc s'. subprocess_run [BIN_IPSET, ''destroy'', name] s = ([Run [BIN_IPSET, ''destroy'', name]], s', Inr rc) \<and>
            only_ipset_changed name s s' \<and>
            map_of (ipsets s') name =
              (if name \<in> snd ` set (rules s) then map_of (ipsets s) name else None)"
proof -
  obtain rc s' where "exec [BIN_IPSET, ''destroy'', name] s = (rc, s')"
    and "only_ipset_changed name s s'"
    and "map_of (ipsets s') name =
           (if name \<in> snd ` set (rules s) then map_of (ipsets s) name else None)"
    using exec_destroy by blast
  then show ?thesis by (simp add: subprocess_run_def)
qed

lemma run_create:
  "\<exists>rc s'. subprocess_run [BIN_IPSET, ''create'', name, ''hash:net'', ''family'', family] s =
              ([Run [BIN_IPSET, ''create'', name, ''hash:net'', ''family'', family]], s', Inr rc) \<and>
            only_ipset_changed name s s' \<and>
            map_of (ipsets s') name =
              Some (case map_of (ipsets s) name of None \<Rightarrow> [] | Some m \<Rightarrow> m)"
proof -
  obtain rc s' where "exec [BIN_IPSET, ''create'', name, ''hash:net'', ''family'', family] s = (rc, s')"
    and "only_ipset_changed name s s'"
    and "map_of (ipsets s') name = Some (case map_of (ipsets s) name of None \<Rightarrow> [] | Some m \<Rightarrow> m)"
    using exec_create by blast
  then show ?thesis by (simp add: subprocess_run_def)
qed

lemma run_add:
  "\<exists>rc s'. subprocess_run [BIN_IPSET, ''add'', name, cidr] s =
              ([Run [BIN_IPSET, ''add'', name, cidr]], s', Inr rc) \<and>
            filled name [cidr] s s'"
proof -
  obtain rc s' where "exec [BIN_IPSET, ''add'', name, cidr] s = (rc, s')"
    and "filled name [cidr] s s'"
    using exec_add by blast
  then show ?thesis by (simp add: subprocess_run_def)
qed

lemma reset_and_create:
  "\<exists>s'. bindp (subprocess_run [BIN_IPSET, ''list'', name]) (\<lambda>returncode.
            thenp (if returncode = 0
                   then thenp (subprocess_run [BIN_IPSET, ''destroy'', name]) (ret ())
                   else ret ())
                  (thenp (subprocess_run [BIN_IPSET, ''create'', name, ''hash:net'', ''family'', family])
                         (ret ()))) s =
          (map Run ([BIN_IPSET, ''list'', name] #
                    (if ipset_exists s name then [[BIN_IPSET, ''destroy'', name]] else []) @
                    [[BIN_IPSET, ''create'', name, ''hash:net'', ''family'', family]]), s', Inr ()) \<and>
        only_ipset_changed name s s' \<and> map_of (ipsets s') name = Some (kept_members s name)"
proof (cases "ipset_exists s name")
  case True
  then have l: "subprocess_run [BIN_IPSET, ''list'', name] s = ([Run [BIN_IPSET, ''list'', name]], s, Inr 0)"
    by (simp add: subprocess_run_def exec_list)
  obtain rc1 s1 where d: "subprocess_run [BIN_IPSET, ''destroy'', name] s =
      ([Run [BIN_IPSET, ''destroy'', name]], s1, Inr rc1)" and c1: "only_ipset_changed name s s1"
    and m1: "map_of (ipsets s1) name =
               (if name \<in> snd ` set (rules s) then map_of (ipsets s) name else None)"
    using run_destroy by blast
  obtain rc3 s3 where c: "subprocess_run [BIN_IPSET, ''create'', name, ''hash:net'', ''family'', family] s1 =
      ([Run [BIN_IPSET, ''create'', name, ''hash:net'', ''family'', family]], s3, Inr rc3)"
    and c3: "only_ipset_changed name s1 s3"
    and m3: "map_of (ipsets s3) name = Some (case map_of (ipsets s1) name of None \<Rightarrow> [] | Some m \<Rightarrow> m)"
    using run_create by blast
  have "only_ipset_changed name s s3" using c1 c3 by (rule only_ipset_changed_trans)
  moreover have "map_of (ipsets s3) name = Some (kept_members s name)"
    unfolding m3 m1 by (simp add: kept_members_def)
  ultimately show ?thesis using True by (simp add: bindp_def thenp_def ret_def l d c)
next
  case False
  then have l: "subprocess_run [BIN_IPSET, ''list'', name] s = ([Run [BIN_IPSET, ''list'', name]], s, Inr 1)"
    by (simp add: subprocess_run_def exec_list)
  obtain rc3 s3 where c: "subprocess_run [BIN_IPSET, ''create'', name, ''hash:net'', ''family'', family] s =
      ([Run [BIN_IPSET, ''create'', name, ''hash:net'', ''family'', family]], s3, Inr rc3)"
    and c3: "only_ipset_changed name s s3"
    and m3: "map_of (ipsets s3) name = Some (case map_of (ipsets s) name of None \<Rightarrow> [] | Some m \<Rightarrow> m)"
    using run_create by blast
  have "map_of (ipsets s) name = None" using False by (simp add: ipset_exists_def)
  then have "map_of (ipsets s3) name = Some (kept_members s name)"
    unfolding m3 by (simp add: kept_members_def)
  then show ?thesis using False c c3 by (simp add: bindp_def thenp_def ret_def l)
qed

lemma create_or_reset_ipset_False:
  "create_or_reset_ipset name version False =
     bindp (subprocess_run [BIN_IPSET, ''list'', name]) (\<lambda>returncode.
       thenp (if returncode = 0
              then thenp (subprocess_run [BIN_IPSET, ''destroy'', name]) (ret ())
              else ret ())
             (thenp (subprocess_run [BIN_IPSET, ''create'', name, ''hash:net'', ''family'',
                                     if version = ''v6'' then ''inet6'' else ''inet''])
                    (ret ())))"
  by (simp add: create_or_reset_ipset_def Let_def)

lemma create_or_reset_ipset_live:
  "\<exists>s'. create_or_reset_ipset name version False s =
          (map Run ([BIN_IPSET, ''list'', name] #
                    (if ipset_exists s name then [[BIN_IPSET, ''destroy'', name]] else []) @
                    [[BIN_IPSET, ''create'', name, ''hash:net'', ''family'',
                      if version = ''v6'' then ''inet6'' else ''inet'']]), s', Inr ()) \<and>
        only_ipset_changed name s s' \<and> map_of (ipsets s') name = Some (kept_members s name)"
  unfolding create_or_reset_ipset_False by (rule reset_and_create)

lemma unblock_inner_loop:
  "for_loop nets cidr_list (\<lambda>net cidr_list. ret (cidr_list @ [net_str lib net])) s =
     ([], s, Inr (cidr_list @ map (net_str lib) nets))"
  by (induction nets arbitrary: cidr_list) (simp_all add: ret_def bindp_def)

lemma block_inner_loop:
  "\<exists>s'. for_loop nets cidr_list
            (\<lambda>net cidr_list. let cidr = net_str lib net in
               thenp (add_ip_to_ipset name cidr False) (ret (cidr_list @ [cidr]))) s =
          (map (\<lambda>cidr. Run [BIN_IPSET, ''add'', name, cidr]) (map (net_str lib) nets), s',
           Inr (cidr_list @ map (net_str lib) nets)) \<and>
        filled name (map (net_str lib) nets) s s'"
proof (induction nets arbitrary: cidr_list s)
  case Nil
  show ?case by (simp add: ret_def filled_refl)
next
  case (Cons net nets)
  obtain rc s1 where a: "subprocess_run [BIN_IPSET, ''add'', name, net_str lib net] s =
      ([Run [BIN_IPSET, ''add'', name, net_str lib net]], s1, Inr rc)"
    and c1: "filled name [net_str lib net] s s1"
    using run_add by blast
  obtain s2 where l: "for_loop nets (cidr_list @ [net_str lib net])
            (\<lambda>net cidr_list. let cidr = net_str lib net in
               thenp (add_ip_to_ipset name cidr False) (ret (cidr_list @ [cidr]))) s1 =
          (map (\<lambda>cidr. Run [BIN_IPSET, ''add'', name, cidr]) (map (net_str lib) nets), s2,
           Inr ((cidr_list @ [net_str lib net]) @ map (net_str lib) nets))"
    and c2: "filled name (map (net_str lib) nets) s1 s2"
    using Cons.IH by blast
  have "filled name ([net_str lib net] @ map (net_str lib) nets) s s2"
    using c1 c2 by (rule filled_trans)
  then show ?case
    using l by (simp add: add_ip_to_ipset_def Let_def bindp_def thenp_def ret_def a)
qed


lemma unblock_cidr_list_collect:
  "unblock_cidr_list lib asn version =
     bindp (parse_dataset (FILES version) asn) (\<lambda>ranges. for_generated ranges [] (collect_range lib))"
  by (simp add: unblock_cidr_list_def collect_range_def)

lemma block_cidr_list_add:
  "block_cidr_list lib asn version ipset_name dry_run =
     bindp (parse_dataset (FILES version) asn)
       (\<lambda>ranges. for_generated ranges [] (add_range lib ipset_name dry_run))"
  by (simp add: block_cidr_list_def add_range_def)

lemma collect_range_step:
  "collect_range lib x cidr_list s =
   ([], s, case iprange_to_cidr lib (fst x) (snd x) of
             Inl e \<Rightarrow> Inl e
           | Inr nets \<Rightarrow> Inr (cidr_list @ map (net_str lib) nets))"
  by (cases x) (simp add: collect_range_def unblock_inner_loop raise_def split: sum.splits)

lemma add_range_step:
  "iprange_to_cidr lib (fst x) (snd x) = Inr nets \<Longrightarrow>
   \<exists>s'. add_range lib name False x cidr_list s =
          (map (\<lambda>cidr. Run [BIN_IPSET, ''add'', name, cidr]) (map (net_str lib) nets), s',
           Inr (cidr_list @ map (net_str lib) nets)) \<and>
        filled name (map (net_str lib) nets) s s'"
  using block_inner_loop[of nets cidr_list lib name s]
  by (cases x) (simp add: add_range_def)

lemma collect_loop_pure: "\<exists>r. for_loop ranges cidr_list (collect_range lib) s = ([], s, r)"
proof (induction ranges arbitrary: cidr_list)
  case Nil
  show ?case by (simp add: ret_def)
next
  case (Cons x ranges)
  show ?case
  proof (cases "iprange_to_cidr lib (fst x) (snd x)")
    case (Inl e)
    then show ?thesis by (simp add: bindp_def collect_range_step)
  next
    case (Inr nets)
    with Cons.IH[of "cidr_list @ map (net_str lib) nets"] show ?thesis
      by (auto simp add: bindp_def collect_range_step)
  qed
qed

lemma add_loop_live:
  assumes "result_of (for_loop ranges cidr_list (collect_range lib) s0) = Inr r"
  shows "\<exists>s' rest. r = cidr_list @ rest \<and>
           for_loop ranges cidr_list (add_range lib name False) s =
             (map (\<lambda>cidr. Run [BIN_IPSET, ''add'', name, cidr]) rest, s', Inr r) \<and>
           filled name rest s s'"
  using assms
proof (induction ranges arbitrary: cidr_list s)
  case Nil
  then show ?case by (simp add: ret_def result_of_def filled_refl)
next
  case (Cons x ranges)
  show ?case
  proof (cases "iprange_to_cidr lib (fst x) (snd x)")
    case (Inl e)
    then have "collect_range lib x cidr_list s0 = ([], s0, Inl e)"
      by (simp add: collect_range_step)
    then have "result_of (for_loop (x # ranges) cidr_list (collect_range lib) s0) = Inl e"
      by (simp add: bindp_def result_of_def)
    with Cons.prems show ?thesis by simp
  next
    case (Inr nets)
    define cl where "cl = cidr_list @ map (net_str lib) nets"
    have step: "collect_range lib x cidr_list s0 = ([], s0, Inr cl)"
      using Inr by (simp add: collect_range_step cl_def)
    obtain r' where "for_loop ranges cl (collect_range lib) s0 = ([], s0, r')"
      using collect_loop_pure by blast
    then have "for_loop (x # ranges) cidr_list (collect_range lib) s0 =
                 for_loop ranges cl (collect_range lib) s0"
      by (simp add: bindp_def step)
    with Cons.prems have u: "result_of (for_loop ranges cl (collect_range lib) s0) = Inr r"
      by simp
    obtain s1 where i: "add_range lib name False x cidr_list s =
          (map (\<lambda>cidr. Run [BIN_IPSET, ''add'', name, cidr]) (map (net_str lib) nets), s1, Inr cl)"
      and c1: "filled name (map (net_str lib) nets) s s1"
      unfolding cl_def using add_range_step[OF Inr] by blast
    from Cons.IH[OF u, of s1] obtain s2 rest where r: "r = cl @ rest"
      and l: "for_loop ranges cl (add_range lib name False) s1 =
             (map (\<lambda>cidr. Run [BIN_IPSET, ''add'', name, cidr]) rest, s2, Inr r)"
      and c2: "filled name rest s1 s2"
      by blast
    have c: "filled name (map (net_str lib) nets @ rest) s s2" using c1 c2 by (rule filled_trans)
    have "r = cidr_list @ (map (net_str lib) nets @ rest)" using r by (simp add: cl_def)
    moreover have "for_loop (x # ranges) cidr_list (add_range lib name False) s =
             (map (\<lambda>cidr. Run [BIN_IPSET, ''add'', name, cidr]) (map (net_str lib) nets @ rest), s2, Inr r)"
      using i l by (simp add: bindp_def)
    ultimately show ?thesis using c by blast
  qed
qed


lemma unblock_cidr_list_pure:
  "unblock_cidr_list lib asn version s =
     ([Open (FILES version)], s, result_of (unblock_cidr_list lib asn version s))"
proof (cases "map_of (files s) (FILES version)")
  case None
  then show ?thesis
    by (simp add: unblock_cidr_list_collect parse_dataset_def bindp_def result_of_def)
next
  case (Some lines)
  obtain r where "for_loop (fst (parse_lines lines asn)) [] (collect_range lib) s = ([], s, r)"
    using collect_loop_pure by blast
  then show ?thesis
    by (simp add: unblock_cidr_list_collect parse_dataset_def Some bindp_def result_of_def
        for_generated_def ret_def raise_def split: sum.splits option.splits)
qed

lemma unblock_cidr_list_files:
  "files s' = files s \<Longrightarrow>
   result_of (unblock_cidr_list lib asn version s') = result_of (unblock_cidr_list lib asn version s)"
  using cidr_list_results_agree[of s version s' lib asn "[]" False]
        cidr_list_results_agree[of s version s lib asn "[]" False]
  by simp

lemma unblock_cidr_list_exists:
  "result_of (unblock_cidr_list lib asn version s) = Inr cidrs \<Longrightarrow>
   map_of (files s) (FILES version) \<noteq> None"
  by (cases "map_of (files s) (FILES version)")
     (simp_all add: unblock_cidr_list_collect parse_dataset_def bindp_def result_of_def)

lemma block_cidr_list_live:
  assumes "result_of (unblock_cidr_list lib asn version s0) = Inr cidrs" and "files s = files s0"
  shows "\<exists>s'. block_cidr_list lib asn version name False s =
           (Open (FILES version) # map (\<lambda>cidr. Run [BIN_IPSET, ''add'', name, cidr]) cidrs, s',
            Inr cidrs) \<and>
         filled name cidrs s s'"
proof -
  from assms(1) obtain lines where f0: "map_of (files s0) (FILES version) = Some lines"
    using unblock_cidr_list_exists by blast
  then have f: "map_of (files s) (FILES version) = Some lines" using assms(2) by simp
  define gen where "gen = parse_lines lines asn"
  have p0: "parse_dataset (FILES version) asn s0 = ([Open (FILES version)], s0, Inr gen)"
    by (simp add: parse_dataset_def f0 gen_def)
  have p: "parse_dataset (FILES version) asn s = ([Open (FILES version)], s, Inr gen)"
    by (simp add: parse_dataset_def f gen_def)
  have "result_of (for_generated gen [] (collect_range lib) s0) = Inr cidrs"
    using assms(1) by (simp add: unblock_cidr_list_collect bindp_def p0 result_of_def split: prod.splits)
  then have loop0: "result_of (for_loop (fst gen) [] (collect_range lib) s0) = Inr cidrs"
    and none: "snd gen = None"
    unfolding result_of_for_generated by (auto split: sum.splits option.splits)
  from add_loop_live[OF loop0, of name s] obtain s' where
    l: "for_loop (fst gen) [] (add_range lib name False) s =
          (map (\<lambda>cidr. Run [BIN_IPSET, ''add'', name, cidr]) cidrs, s', Inr cidrs)"
    and c: "filled name cidrs s s'"
    by auto
  have "block_cidr_list lib asn version name False s =
           (Open (FILES version) # map (\<lambda>cidr. Run [BIN_IPSET, ''add'', name, cidr]) cidrs, s',
            Inr cidrs)"
    by (simp add: block_cidr_list_add bindp_def p for_generated_def l none ret_def)
  with c show ?thesis by blast
qed

lemma ensure_datasets_present:
  "map_of (files s) (FILES ''v4'') \<noteq> None \<Longrightarrow> map_of (files s) (FILES ''v6'') \<noteq> None \<Longrightarrow>
   ensure_datasets lib s = ([], s, Inr ())"
  by (auto simp add: ensure_datasets_def path_exists_def bindp_def ret_def)

lemma block_version_unknown:
  assumes "result_of (unblock_cidr_list lib asn version s0) = Inr cidrs" and "files s = files s0"
    and "name = (if version = ''v4'' then ''ASN'' @ str_int asn @ ''_v4'' else ''ASN'' @ str_int asn @ ''_v6'')"
  shows "\<exists>t s'. create_ipset_and_rules_version lib asn False ''unknown'' version s = (t, s', Inr ()) \<and>
           commands t = ipset_commands s name (if version = ''v6'' then ''inet6'' else ''inet'') cidrs \<and>
           only_ipset_changed name s s' \<and>
           map_of (ipsets s') name = Some (add_members (kept_members s name) cidrs)"
proof -
  obtain s1 where r: "create_or_reset_ipset name version False s =
          (map Run ([BIN_IPSET, ''list'', name] #
                    (if ipset_exists s name then [[BIN_IPSET, ''destroy'', name]] else []) @
                    [[BIN_IPSET, ''create'', name, ''hash:net'', ''family'',
                      if version = ''v6'' then ''inet6'' else ''inet'']]), s1, Inr ())"
    and c1: "only_ipset_changed name s s1"
    and m1: "map_of (ipsets s1) name = Some (kept_members s name)"
    using create_or_reset_ipset_live by blast
  have "files s1 = files s0" using c1 assms(2) by (simp add: only_ipset_changed_def)
  with assms(1) obtain s2 where b: "block_cidr_list lib asn version name False s1 =
           (Open (FILES version) # map (\<lambda>cidr. Run [BIN_IPSET, ''add'', name, cidr]) cidrs, s2,
            Inr cidrs)"
    and c2: "filled name cidrs s1 s2"
    using block_cidr_list_live by blast
  have c: "only_ipset_changed name s s2"
    using c1 filled_changed[OF c2] by (rule only_ipset_changed_trans)
  have m: "map_of (ipsets s2) name = Some (add_members (kept_members s name) cidrs)"
    using c2 m1 by (simp add: filled_def)
  have "create_ipset_and_rules_version lib asn False ''unknown'' version s =
          (map Run ([BIN_IPSET, ''list'', name] #
                    (if ipset_exists s name then [[BIN_IPSET, ''destroy'', name]] else []) @
                    [[BIN_IPSET, ''create'', name, ''hash:net'', ''family'',
                      if version = ''v6'' then ''inet6'' else ''inet'']]) @
           (Open (FILES version) # map (\<lambda>cidr. Run [BIN_IPSET, ''add'', name, cidr]) cidrs) @ [],
           s2, Inr ())"
    unfolding create_ipset_and_rules_version_def assms(3)[symmetric] Let_def
    by (simp add: thenp_def bindp_def r b ret_def)
  moreover have "commands (map Run ([BIN_IPSET, ''list'', name] #
                    (if ipset_exists s name then [[BIN_IPSET, ''destroy'', name]] else []) @
                    [[BIN_IPSET, ''create'', name, ''hash:net'', ''family'',
                      if version = ''v6'' then ''inet6'' else ''inet'']]) @
           (Open (FILES version) # map (\<lambda>cidr. Run [BIN_IPSET, ''add'', name, cidr]) cidrs) @ []) =
        ipset_commands s name (if version = ''v6'' then ''inet6'' else ''inet'') cidrs"
    using commands_Run[of "map (\<lambda>cidr. [BIN_IPSET, ''add'', name, cidr]) cidrs"]
    by (simp add: ipset_commands_def comp_def)
  ultimately show ?thesis using c m by metis
qed


lemma cleanup_version_unknown:
  assumes "result_of (unblock_cidr_list lib asn version s) = Inr cidrs"
    and "name = ''ASN'' @ str_int asn @ ''_'' @ version"
  shows "\<exists>t s'. cleanup_ipsets_version lib asn False ''unknown'' version s = (t, s', Inr ()) \<and>
           commands t = [[BIN_IPSET, ''destroy'', name]] \<and> only_ipset_changed name s s' \<and>
           map_of (ipsets s') name =
             (if name \<in> snd ` set (rules s) then map_of (ipsets s) name else None)"
proof -
  have u: "unblock_cidr_list lib asn version s = ([Open (FILES version)], s, Inr cidrs)"
    using unblock_cidr_list_pure[of lib asn version s] assms(1) by simp
  obtain rc s1 where d: "subprocess_run [BIN_IPSET, ''destroy'', name] s =
      ([Run [BIN_IPSET, ''destroy'', name]], s1, Inr rc)" and c1: "only_ipset_changed name s s1"
    and m1: "map_of (ipsets s1) name =
               (if name \<in> snd ` set (rules s) then map_of (ipsets s) name else None)"
    using run_destroy by blast
  have "cleanup_ipsets_version lib asn False ''unknown'' version s =
          ([Open (FILES version), Run [BIN_IPSET, ''destroy'', name],
            Log ''INFO'' (''Removed ipset and rules for '' @ name)], s1, Inr ())"
    unfolding cleanup_ipsets_version_def assms(2)[symmetric] Let_def
    by (simp add: thenp_def bindp_def u d ret_def logger_info_def emit_def)
  then show ?thesis using c1 m1 by simp
qed

lemma detect_unknown:
  assumes "result_of (detect_firewall_backend s) = Inr ''unknown''"
  shows "active_backends s = []"
proof (cases "2 \<le> length (active_backends s)")
  case True
  then show ?thesis using assms by (simp add: detect_conflict result_of_def)
next
  case False
  then have le: "length (active_backends s) \<le> 1" by simp
  show ?thesis
  proof (cases "active_backends s")
    case Nil
    then show ?thesis .
  next
    case (Cons b bs)
    then have "b \<in> set (active_backends s)" by simp
    then have "b \<in> set [''firewalld'', ''ufw'', ''iptables'']"
      unfolding active_backends_def by (simp only: set_filter) blast
    then have "b \<in> {''firewalld'', ''ufw'', ''iptables''}" by simp
    moreover have "b = ''unknown''" using assms Cons by (simp add: detect_single[OF le] result_of_def)
    ultimately show ?thesis by simp
  qed
qed

text \<open>
  With the backend \<open>unknown\<close> and the dataset files missing, unblock ends with
  \<^verbatim>\<open>FileNotFoundError\<close> after the activation queries: no destroy command is issued.
  With the backend \<open>unknown\<close> and a set that a rule references, block does not reset
  the set: the member it had is still there afterwards.
\<close>

theorem unknown_backend_missing_dataset:
  "validate_asn 64500 \<and>
   result_of (detect_firewall_backend (system_without_datasets [])) = Inr ''unknown'' \<and>
   result_of (cleanup_ipsets ipv4_lib 64500 False (system_without_datasets [])) = Inl FileNotFoundError \<and>
   commands (events_of (cleanup_ipsets ipv4_lib 64500 False (system_without_datasets []))) =
     [[BIN_SYSTEMCTL, ''is-active'', ''--quiet'', ''firewalld''],
      [BIN_SYSTEMCTL, ''is-active'', ''--quiet'', ''ufw''],
      [BIN_SYSTEMCTL, ''is-active'', ''--quiet'', ''iptables''],
      [BIN_SYSTEMCTL, ''is-active'', ''--quiet'', ''ip6tables'']] \<and>
   result_of (detect_firewall_backend referenced_system) = Inr ''unknown'' \<and>
   map_of (ipsets referenced_system) ''ASN64500_v4'' = Some [''9.9.9.9/32''] \<and>
   map_of (ipsets (system_of (create_ipset_and_rules ipv4_lib 64500 False referenced_system)))
          ''ASN64500_v4'' = Some [''9.9.9.9/32'', ''1.2.3.4/30'', ''1.2.3.8/31'']"
  by (simp add: script_defs prog_simps bin_defs string_eval system_eval library_eval)

text \<open>
  Claim C10, as amended. When the detected backend is \<open>unknown\<close> (no conflict and none of
  the three backends), the ASN is valid and the dataset files of both versions are
  present and read without an exception, a live block completes and runs, after the
  activation queries, for each version exactly the existence query of the set, its
  destroy command when the set exists, its create command and one add command for every
  CIDR string of the version, and no firewall-rule command. Afterwards the rules are
  unchanged and the set of each version exists and holds every CIDR string of the
  version, after the members it kept: none, unless a rule references the set, which
  then cannot be destroyed and keeps its members (\<open>set_add_members\<close> gives the set of
  members). A live unblock completes and runs, after the activation queries, exactly the
  destroy commands of the two sets; the rules are unchanged, and a set that no rule
  references is gone.
\<close>

theorem unknown_backend_ipsets_only:
  assumes "validate_asn asn"
    and "result_of (detect_firewall_backend s) = Inr ''unknown''"
    and "result_of (unblock_cidr_list lib asn ''v4'' s) = Inr cidrs4"
    and "result_of (unblock_cidr_list lib asn ''v6'' s) = Inr cidrs6"
  shows "result_of (create_ipset_and_rules lib asn False s) = Inr () \<and>
         commands (events_of (create_ipset_and_rules lib asn False s)) =
           commands (detect_queries s) @
           ipset_commands s (''ASN'' @ str_int asn @ ''_v4'') ''inet'' cidrs4 @
           ipset_commands s (''ASN'' @ str_int asn @ ''_v6'') ''inet6'' cidrs6 \<and>
         rules (system_of (create_ipset_and_rules lib asn False s)) = rules s \<and>
         map_of (ipsets (system_of (create_ipset_and_rules lib asn False s)))
                (''ASN'' @ str_int asn @ ''_v4'') =
           Some (add_members (kept_members s (''ASN'' @ str_int asn @ ''_v4'')) cidrs4) \<and>
         map_of (ipsets (system_of (create_ipset_and_rules lib asn False s)))
                (''ASN'' @ str_int asn @ ''_v6'') =
           Some (add_members (kept_members s (''ASN'' @ str_int asn @ ''_v6'')) cidrs6) \<and>
         result_of (cleanup_ipsets lib asn False s) = Inr () \<and>
         commands (events_of (cleanup_ipsets lib asn False s)) =
           commands (detect_queries s) @
           [[BIN_IPSET, ''destroy'', ''ASN'' @ str_int asn @ ''_v4''],
            [BIN_IPSET, ''destroy'', ''ASN'' @ str_int asn @ ''_v6'']] \<and>
         rules (system_of (cleanup_ipsets lib asn False s)) = rules s \<and>
         map_of (ipsets (system_of (cleanup_ipsets lib asn False s))) (''ASN'' @ str_int asn @ ''_v4'') =
           (if ''ASN'' @ str_int asn @ ''_v4'' \<in> snd ` set (rules s)
            then map_of (ipsets s) (''ASN'' @ str_int asn @ ''_v4'') else None) \<and>
         map_of (ipsets (system_of (cleanup_ipsets lib asn False s))) (''ASN'' @ str_int asn @ ''_v6'') =
           (if ''ASN'' @ str_int asn @ ''_v6'' \<in> snd ` set (rules s)
            then map_of (ipsets s) (''ASN'' @ str_int asn @ ''_v6'') else None)"
proof -
  define n4 where "n4 = ''ASN'' @ str_int asn @ ''_v4''"
  define n6 where "n6 = ''ASN'' @ str_int asn @ ''_v6''"
  have ne: "n6 \<noteq> n4" by (simp add: n4_def n6_def)
  have ne': "n4 \<noteq> n6" using ne by simp
  have "active_backends s = []" using assms(2) by (rule detect_unknown)
  then have det: "detect_firewall_backend s = (detect_queries s, s, Inr ''unknown'')"
    by (simp add: detect_single)
  have ex4: "map_of (files s) (FILES ''v4'') \<noteq> None" using assms(3) by (rule unblock_cidr_list_exists)
  have ex6: "map_of (files s) (FILES ''v6'') \<noteq> None" using assms(4) by (rule unblock_cidr_list_exists)
  have ens: "ensure_datasets lib s = ([], s, Inr ())" using ex4 ex6 by (rule ensure_datasets_present)
  \<comment> \<open>block\<close>
  obtain t4 s4 where b4: "create_ipset_and_rules_version lib asn False ''unknown'' ''v4'' s = (t4, s4, Inr ())"
    and k4: "commands t4 = ipset_commands s n4 ''inet'' cidrs4" and c4: "only_ipset_changed n4 s s4"
    and m4: "map_of (ipsets s4) n4 = Some (add_members (kept_members s n4) cidrs4)"
    using block_version_unknown[OF assms(3), of s n4] by (auto simp add: n4_def)
  have f4: "files s4 = files s" and r4: "rules s4 = rules s"
    and o4: "map_of (ipsets s4) n6 = map_of (ipsets s) n6"
    using c4 ne by (simp_all add: only_ipset_changed_def)
  obtain t6 s6 where b6: "create_ipset_and_rules_version lib asn False ''unknown'' ''v6'' s4 = (t6, s6, Inr ())"
    and k6: "commands t6 = ipset_commands s4 n6 ''inet6'' cidrs6" and c6: "only_ipset_changed n6 s4 s6"
    and m6: "map_of (ipsets s6) n6 = Some (add_members (kept_members s4 n6) cidrs6)"
    using block_version_unknown[OF assms(4) f4, of n6] by (auto simp add: n6_def)
  have "ipset_exists s4 n6 = ipset_exists s n6" using c4 ne by (rule only_ipset_changed_exists)
  then have k6': "commands t6 = ipset_commands s n6 ''inet6'' cidrs6"
    using k6 by (simp add: ipset_commands_def)
  have kept6: "kept_members s4 n6 = kept_members s n6" by (simp add: kept_members_def r4 o4)
  have r6: "rules s6 = rules s" and o6: "map_of (ipsets s6) n4 = map_of (ipsets s4) n4"
    using c6 ne' r4 by (simp_all add: only_ipset_changed_def)
  have blk: "create_ipset_and_rules lib asn False s =
          (Print ''--- Creating block rules ---'' # detect_queries s @
           [Print ''Firewall system detected: unknown'', Mkdir DATA_DIR] @ t4 @ t6, s6, Inr ())"
    using assms(1)
    by (simp add: create_ipset_and_rules_def thenp_def bindp_def py_print_def emit_def det
        ensure_data_dir_def ens b4 b6 ret_def)
  \<comment> \<open>unblock\<close>
  obtain u4 x4 where d4: "cleanup_ipsets_version lib asn False ''unknown'' ''v4'' s = (u4, x4, Inr ())"
    and j4: "commands u4 = [[BIN_IPSET, ''destroy'', n4]]" and e4: "only_ipset_changed n4 s x4"
    and q4: "map_of (ipsets x4) n4 = (if n4 \<in> snd ` set (rules s) then map_of (ipsets s) n4 else None)"
    using cleanup_version_unknown[OF assms(3), of n4] by (auto simp add: n4_def)
  have fx: "files x4 = files s" and rx: "rules x4 = rules s"
    and ox: "map_of (ipsets x4) n6 = map_of (ipsets s) n6"
    using e4 ne by (simp_all add: only_ipset_changed_def)
  from fx have "result_of (unblock_cidr_list lib asn ''v6'' x4) = Inr cidrs6"
    using assms(4) unblock_cidr_list_files[of x4 s lib asn "''v6''"] by simp
  then obtain u6 x6 where d6: "cleanup_ipsets_version lib asn False ''unknown'' ''v6'' x4 = (u6, x6, Inr ())"
    and j6: "commands u6 = [[BIN_IPSET, ''destroy'', n6]]" and e6: "only_ipset_changed n6 x4 x6"
    and q6: "map_of (ipsets x6) n6 = (if n6 \<in> snd ` set (rules x4) then map_of (ipsets x4) n6 else None)"
    using cleanup_version_unknown[of lib asn "''v6''" x4 cidrs6 n6] by (auto simp add: n6_def)
  have ry: "rules x6 = rules s" and oy: "map_of (ipsets x6) n4 = map_of (ipsets x4) n4"
    using e6 ne' rx by (simp_all add: only_ipset_changed_def)
  have unb: "cleanup_ipsets lib asn False s =
          (Print ''--- Cleaning up block rules ---'' # detect_queries s @
           [Print ''Firewall system detected: unknown''] @ u4 @ u6, x6, Inr ())"
    using assms(1)
    by (simp add: cleanup_ipsets_def thenp_def bindp_def py_print_def emit_def det d4 d6 ret_def)
  show ?thesis
    unfolding blk unb n4_def[symmetric] n6_def[symmetric]
    by (simp add: result_of_def events_of_def system_of_def k4 k6' j4 j6 r6 o6 m4 m6 kept6
        ry oy q4 q6 rx ox)
qed

theorem unknown_backend_ipsets_only_witness:
  "result_of (create_ipset_and_rules ipv4_lib 64500 False (example_system [])) = Inr () \<and>
   commands (events_of (create_ipset_and_rules ipv4_lib 64500 False (example_system []))) =
     [[BIN_SYSTEMCTL, ''is-active'', ''--quiet'', ''firewalld''],
      [BIN_SYSTEMCTL, ''is-active'', ''--quiet'', ''ufw''],
      [BIN_SYSTEMCTL, ''is-active'', ''--quiet'', ''iptables''],
      [BIN_SYSTEMCTL, ''is-active'', ''--quiet'', ''ip6tables''],
      [BIN_IPSET, ''list'', ''ASN64500_v4''],
      [BIN_IPSET, ''create'', ''ASN64500_v4'', ''hash:net'', ''family'', ''inet''],
      [BIN_IPSET, ''add'', ''ASN64500_v4'', ''1.2.3.4/30''],
      [BIN_IPSET, ''add'', ''ASN64500_v4'', ''1.2.3.8/31''],
      [BIN_IPSET, ''list'', ''ASN64500_v6''],
      [BIN_IPSET, ''create'', ''ASN64500_v6'', ''hash:net'', ''family'', ''inet6'']] \<and>
   map_of (ipsets (system_of (create_ipset_and_rules ipv4_lib 64500 False (example_system []))))
          ''ASN64500_v4'' = Some [''1.2.3.4/30'', ''1.2.3.8/31''] \<and>
   map_of (ipsets (system_of (create_ipset_and_rules ipv4_lib 64500 False (example_system []))))
          ''ASN64500_v6'' = Some [] \<and>
   result_of (cleanup_ipsets ipv4_lib 64500 False (example_system [])) = Inr () \<and>
   commands (events_of (cleanup_ipsets ipv4_lib 64500 False (example_system []))) =
     [[BIN_SYSTEMCTL, ''is-active'', ''--quiet'', ''firewalld''],
      [BIN_SYSTEMCTL, ''is-active'', ''--quiet'', ''ufw''],
      [BIN_SYSTEMCTL, ''is-active'', ''--quiet'', ''iptables''],
      [BIN_SYSTEMCTL, ''is-active'', ''--quiet'', ''ip6tables''],
      [BIN_IPSET, ''destroy'', ''ASN64500_v4''],
      [BIN_IPSET, ''destroy'', ''ASN64500_v6'']] \<and>
   map_of (ipsets (system_of (create_ipset_and_rules ipv4_lib 64500 False referenced_system)))
          ''ASN64500_v4'' = Some [''9.9.9.9/32'', ''1.2.3.4/30'', ''1.2.3.8/31'']"
proof -
  have h1: "validate_asn 64500" by (simp add: validate_asn_def)
  have h2: "result_of (detect_firewall_backend (example_system [])) = Inr ''unknown''"
    by (simp add: detect_firewall_backend_def is_service_active_eval prog_simps example_system_def)
  have h3: "result_of (unblock_cidr_list ipv4_lib 64500 ''v4'' (example_system [])) =
              Inr [''1.2.3.4/30'', ''1.2.3.8/31'']"
    by (simp add: script_defs prog_simps bin_defs string_eval system_eval library_eval)
  have h4: "result_of (unblock_cidr_list ipv4_lib 64500 ''v6'' (example_system [])) = Inr []"
    by (simp add: script_defs prog_simps bin_defs string_eval system_eval library_eval)
  have g2: "result_of (detect_firewall_backend referenced_system) = Inr ''unknown''"
    by (simp add: detect_firewall_backend_def is_service_active_eval prog_simps referenced_system_def)
  have g3: "result_of (unblock_cidr_list ipv4_lib 64500 ''v4'' referenced_system) =
              Inr [''1.2.3.4/30'', ''1.2.3.8/31'']"
    by (simp add: script_defs prog_simps bin_defs string_eval system_eval library_eval)
  have g4: "result_of (unblock_cidr_list ipv4_lib 64500 ''v6'' referenced_system) = Inr []"
    by (simp add: script_defs prog_simps bin_defs string_eval system_eval library_eval)
  have q: "commands (detect_queries (example_system [])) =
     [[BIN_SYSTEMCTL, ''is-active'', ''--quiet'', ''firewalld''],
      [BIN_SYSTEMCTL, ''is-active'', ''--quiet'', ''ufw''],
      [BIN_SYSTEMCTL, ''is-active'', ''--quiet'', ''iptables''],
      [BIN_SYSTEMCTL, ''is-active'', ''--quiet'', ''ip6tables'']]"
    by (simp add: detect_queries_def example_system_def)
  have n: "''ASN'' @ str_int 64500 @ ''_v4'' = ''ASN64500_v4''"
    "''ASN'' @ str_int 64500 @ ''_v6'' = ''ASN64500_v6''"
    by (simp_all add: string_eval)
  have e: "\<not> ipset_exists (example_system []) name" for name
    by (simp add: ipset_exists_def example_system_def)
  have k: "kept_members (example_system []) name = []" for name
    by (simp add: kept_members_def example_system_def)
  have k': "kept_members referenced_system ''ASN64500_v4'' = [''9.9.9.9/32'']"
    by (simp add: kept_members_def referenced_system_def bin_defs)
  have a: "add_members [] [''1.2.3.4/30'', ''1.2.3.8/31''] = [''1.2.3.4/30'', ''1.2.3.8/31'']"
    "add_members [''9.9.9.9/32''] [''1.2.3.4/30'', ''1.2.3.8/31''] =
       [''9.9.9.9/32'', ''1.2.3.4/30'', ''1.2.3.8/31'']"
    "add_members [] [] = []"
    by (simp_all add: add_members_def)
  from unknown_backend_ipsets_only[OF h1 h2 h3 h4] unknown_backend_ipsets_only[OF h1 g2 g3 g4]
  show ?thesis
    unfolding q n k k' a by (simp add: ipset_commands_def e)
qed


section \<open>Dry runs\<close>

lemma printed_append [simp]: "printed (t @ u) = printed t @ printed u"
  by (simp add: printed_def)

lemma would_run_append [simp]: "would_run (t @ u) = would_run t @ would_run u"
  by (simp add: would_run_def)

lemma described_append [simp]: "described (a @ b) = described a @ described b"
  by (simp add: described_def)

lemma would_run_line_dry_run_line [simp]: "would_run_line (dry_run_line description)"
  by (simp add: would_run_line_def startswith_def dry_run_line_def)




lemma mirrors_query: "is_query cmd \<Longrightarrow> mirrors [Run cmd] [Run cmd]"
  by (simp add: mirrors_def commands_def would_run_def printed_def described_def)


















































lemma query_leaves_system:
  assumes "is_query cmd"
  shows "snd (exec cmd s) = s"
proof (cases "is_active_query cmd")
  case True
  then show ?thesis by (simp add: exec_def is_active_query_def)
next
  case False
  then have "length cmd = 3" and "take 2 cmd = [BIN_IPSET, ''list'']"
    using assms by (simp_all add: is_query_def)
  then show ?thesis by (simp add: exec_def)
qed




end
